theory Spec2Isabelle
  imports Complex_Main
begin

section \<open>The beat-synchronised video cutter (tt.py)\<close>

text \<open>
  The program is one procedure, \<^verbatim>\<open>process_files\<close>, that calls a spectral-analysis
  library (librosa), an array library (numpy, scipy) and a video library (moviepy 1.x)
  inside one \<^verbatim>\<open>try\<close> block. The embedding follows the procedure line by line.
  Timestamps, energies and amplitudes are real numbers (exact arithmetic; the rounding of
  the machine's floating point is outside the model). Everything the procedure obtains
  from a file, from the random generator or from the graphical interface is a field of
  an environment record, and each such call either returns a value or raises.
\<close>

subsection \<open>Exceptions and the run of a stage\<close>

datatype error =
    ExternalError string
  | ZeroDivisionError
  | MaxOfEmptyError
  | IndexError
  | SubclipStartError real real
  | NoClipsError
  | NoAudioError

text \<open>
  \<^item> \<open>ExternalError\<close>: raised by a decoder, the encoder or a callback, with its message;
  \<^item> \<open>ZeroDivisionError\<close>: \<^verbatim>\<open>librosa.get_duration\<close> divides by the sampling rate;
  \<^item> \<open>MaxOfEmptyError\<close>: \<^verbatim>\<open>np.max\<close> of a zero-size array (a ValueError);
  \<^item> \<open>IndexError\<close>: \<^verbatim>\<open>times[peaks]\<close> with an index out of bounds;
  \<^item> \<open>SubclipStartError\<close>: \<^verbatim>\<open>subclip\<close> with a start beyond the clip's duration
    (a ValueError);
  \<^item> \<open>NoClipsError\<close>: \<^verbatim>\<open>concatenate_videoclips([])\<close> takes the maximum of an empty
    list of sizes (a ValueError);
  \<^item> \<open>NoAudioError\<close>: \<^verbatim>\<open>final_video.audio\<close> is \<^verbatim>\<open>None\<close> and has no
    \<^verbatim>\<open>volumex\<close> (an AttributeError).
\<close>

record audio =
  a_start :: real
  a_duration :: real
  make_frame :: "real \<Rightarrow> real"

definition a_end :: "audio \<Rightarrow> real" where
  "a_end a = a_start a + a_duration a"

record video =
  v_duration :: real
  v_fps :: real
  v_audio :: "(real \<Rightarrow> real) option"
  v_frame_error :: "real \<Rightarrow> error option"

text \<open>
  A \<^verbatim>\<open>VideoFileClip\<close>: its duration, its frame rate and, when the file has a sound
  track, the amplitude of that track over time. moviepy gives the sound track of a video
  file the duration of the video. \<open>v_frame_error v t\<close> is the exception that decoding the
  frame at the time \<open>t\<close> raises, if any: the reader fails with an OSError when it seeks
  past the last frame of the file.
\<close>

record clip =
  c_start :: real
  c_end :: real
  c_duration :: real
  c_audio :: "audio option"

record final_video =
  o_clips :: "clip list"
  o_duration :: real
  o_audio :: "audio option"

datatype event =
    Progress string
  | WriteVideo final_video real
  | ShowInfo string string
  | ShowError error

text \<open>
  What a run does to the outside: \<open>Progress m\<close> is a message delivered through
  \<^verbatim>\<open>progress_callback\<close>, \<open>WriteVideo v fps\<close> is \<^verbatim>\<open>write_videofile\<close> having
  written \<open>v\<close> to the output file at the frame rate \<open>fps\<close>, \<open>ShowInfo\<close> is
  \<^verbatim>\<open>messagebox.showinfo\<close> and \<open>ShowError e\<close> is
  \<^verbatim>\<open>messagebox.showerror("Error", f"An error occurred: {e}")\<close>.
\<close>

type_synonym 'a run = "event list \<times> (error + 'a)"

definition seq :: "'a run \<Rightarrow> ('a \<Rightarrow> 'b run) \<Rightarrow> 'b run" where
  "seq m f =
     (case m of
        (es, Inl e) \<Rightarrow> (es, Inl e)
      | (es, Inr x) \<Rightarrow> (case f x of (es', r) \<Rightarrow> (es @ es', r)))"

definition lift :: "error + 'a \<Rightarrow> 'a run" where
  "lift r = ([], r)"

record env =
  load_audio :: "error + (nat \<times> nat)"
  bass_energy_of :: "error + real list"
  load_video :: "error + video"
  load_song :: "error + (real \<times> (real \<Rightarrow> real))"
  rand :: "nat \<Rightarrow> real"
  callback :: "string \<Rightarrow> error option"
  write_videofile :: "final_video \<Rightarrow> error option"
  showinfo :: "error option"

text \<open>
  \<^item> \<open>load_audio\<close>: \<^verbatim>\<open>librosa.load(audio_path)\<close>, the number of samples and the
    sampling rate;
  \<^item> \<open>bass_energy_of\<close>: lines 25 to 35, the magnitude spectrogram restricted to 20-250 Hz
    and summed per frame;
  \<^item> \<open>load_video\<close>: \<^verbatim>\<open>VideoFileClip(video_path)\<close>;
  \<^item> \<open>load_song\<close>: \<^verbatim>\<open>AudioFileClip(audio_path)\<close>, the duration of the song file
    and its amplitude over time;
  \<^item> \<open>rand k\<close>: what the k-th call of \<^verbatim>\<open>random.random()\<close> returns;
  \<^item> \<open>callback m\<close>: the exception \<^verbatim>\<open>progress_callback(m)\<close> raises, if any;
  \<^item> \<open>write_videofile\<close>, \<open>showinfo\<close>: the exception the call raises, if any.
\<close>

definition notify :: "env \<Rightarrow> string \<Rightarrow> unit run" where
  "notify env m =
     (case callback env m of
        Some e \<Rightarrow> ([], Inl e)
      | None \<Rightarrow> ([Progress m], Inr ()))"

subsection \<open>Lines 18 to 48: from the song to the cut times\<close>

definition get_duration :: "nat \<Rightarrow> nat \<Rightarrow> error + real" where
  "get_duration n_samples sr =
     (if sr = 0 then Inl ZeroDivisionError else Inr (real n_samples / real sr))"

definition hop_length :: nat where
  "hop_length = 512"

definition frames_to_time :: "nat \<Rightarrow> nat \<Rightarrow> real list" where
  "frames_to_time n sr = map (\<lambda>i. real (i * hop_length) / real sr) [0..<n]"

text \<open>
  \<^verbatim>\<open>librosa.frames_to_time(np.arange(n), sr=sr)\<close> with the library's default hop of
  512 samples: frame \<open>i\<close> starts at sample \<open>512 i\<close>.
\<close>

definition np_max :: "real list \<Rightarrow> error + real" where
  "np_max x = (case x of [] \<Rightarrow> Inl MaxOfEmptyError | v # vs \<Rightarrow> Inr (fold max vs v))"

text \<open>
  \<^verbatim>\<open>scipy.signal.find_peaks(x, height=h)\<close>. Its first pass walks the samples from
  index 1 to the one before the last: a sample larger than its left neighbour opens a
  plateau, the walk skips the samples equal to it, and the plateau is a local maximum when
  the next sample is smaller; the peak is the plateau's middle index, rounded down. Its
  second pass keeps the peaks whose value is at least \<open>h\<close>.
\<close>

function skip_equal :: "real list \<Rightarrow> nat \<Rightarrow> nat \<Rightarrow> nat \<Rightarrow> nat" where
  "skip_equal x i_max i i_ahead =
     (if i_ahead < i_max \<and> x ! i_ahead = x ! i
      then skip_equal x i_max i (i_ahead + 1)
      else i_ahead)"
  by pat_completeness auto
termination
  by (relation "measure (\<lambda>(x, i_max, i, i_ahead). i_max - i_ahead)") auto

declare skip_equal.simps [simp del]

lemma skip_equal_ge: "i_ahead \<le> skip_equal x i_max i i_ahead"
proof (induction x i_max i i_ahead rule: skip_equal.induct)
  case (1 x i_max i i_ahead)
  show ?case
  proof (cases "i_ahead < i_max \<and> x ! i_ahead = x ! i")
    case True
    with "1.IH" have "i_ahead + 1 \<le> skip_equal x i_max i (i_ahead + 1)" by simp
    moreover from True have "skip_equal x i_max i i_ahead = skip_equal x i_max i (i_ahead + 1)"
      by (subst skip_equal.simps) simp
    ultimately show ?thesis by simp
  next
    case False
    then have "skip_equal x i_max i i_ahead = i_ahead"
      by (subst skip_equal.simps) auto
    then show ?thesis by simp
  qed
qed

function local_maxima_from :: "real list \<Rightarrow> nat \<Rightarrow> nat \<Rightarrow> nat list" where
  "local_maxima_from x i_max i =
     (if i < i_max then
        (if x ! (i - 1) < x ! i then
           (let i_ahead = skip_equal x i_max i (i + 1) in
            if x ! i_ahead < x ! i
            then ((i + (i_ahead - 1)) div 2) # local_maxima_from x i_max (i_ahead + 1)
            else local_maxima_from x i_max (i + 1))
         else local_maxima_from x i_max (i + 1))
      else [])"
  by pat_completeness auto
termination
proof (relation "measure (\<lambda>(x, i_max, i). i_max - i)")
  show "wf (measure (\<lambda>(x, i_max, i). i_max - i))" by simp
next
  fix x :: "real list" and i_max i xa :: nat
  assume "i < i_max" "xa = skip_equal x i_max i (i + 1)"
  moreover have "i + 1 \<le> skip_equal x i_max i (i + 1)" by (rule skip_equal_ge)
  ultimately show "((x, i_max, xa + 1), x, i_max, i) \<in> measure (\<lambda>(x, i_max, i). i_max - i)"
    by simp
qed auto

declare local_maxima_from.simps [simp del]

definition local_maxima_1d :: "real list \<Rightarrow> nat list" where
  "local_maxima_1d x = local_maxima_from x (length x - 1) 1"

definition find_peaks :: "real list \<Rightarrow> real \<Rightarrow> nat list" where
  "find_peaks x height = filter (\<lambda>p. height \<le> x ! p) (local_maxima_1d x)"

definition detect_peaks :: "real list \<Rightarrow> error + nat list" where
  "detect_peaks bass_energy =
     (case np_max bass_energy of
        Inl e \<Rightarrow> Inl e
      | Inr m \<Rightarrow> Inr (find_peaks bass_energy (m * 0.7)))"

definition take_indices :: "real list \<Rightarrow> nat list \<Rightarrow> error + real list" where
  "take_indices xs ps =
     (if list_all (\<lambda>p. p < length xs) ps then Inr (map (\<lambda>p. xs ! p) ps) else Inl IndexError)"

definition cut_times_of :: "real list \<Rightarrow> real \<Rightarrow> real list" where
  "cut_times_of peak_times song_duration = sort ([0] @ peak_times @ [song_duration])"

definition analysis :: "env \<Rightarrow> (real list) run" where
  "analysis env =
     seq (lift (load_audio env)) (\<lambda>(n_samples, sr).
     seq (lift (get_duration n_samples sr)) (\<lambda>song_duration.
     seq (notify env ''Calculating STFT...'') (\<lambda>_.
     seq (lift (bass_energy_of env)) (\<lambda>bass_energy.
     seq (notify env ''Detecting peak points...'') (\<lambda>_.
     seq (lift (detect_peaks bass_energy)) (\<lambda>peaks.
     seq (lift (take_indices (frames_to_time (length bass_energy) sr) peaks)) (\<lambda>peak_times.
     lift (Inr (cut_times_of peak_times song_duration)))))))))"

subsection \<open>Lines 51 to 76: one clip per interval\<close>

definition uniform :: "real \<Rightarrow> real \<Rightarrow> real \<Rightarrow> real" where
  "uniform u a b = a + (b - a) * u"

text \<open>
  \<^verbatim>\<open>random.uniform(a, b)\<close> is \<^verbatim>\<open>a + (b - a) * random()\<close>, and
  \<^verbatim>\<open>random()\<close> returns a number \<open>u\<close> with \<open>0 \<le> u < 1\<close>.
\<close>

definition subclip_range :: "real \<Rightarrow> real \<Rightarrow> real \<Rightarrow> error + (real \<times> real)" where
  "subclip_range duration t_start t_end =
     (let t_start' = (if t_start < 0 then duration + t_start else t_start) in
      if t_start' > duration then Inl (SubclipStartError t_start' duration)
      else Inr (t_start', if t_end < 0 then duration + t_end else t_end))"

text \<open>
  moviepy's \<^verbatim>\<open>Clip.subclip(t_start, t_end)\<close>: a negative time counts from the end of
  the clip, a start beyond the clip's duration raises, and an end beyond it does not. The
  new clip plays the old one shifted by the start and lasts from the start to the end.
  On a video clip the call also decodes the frame at the start, to learn the new clip's
  size, and that read can raise; on a sound clip nothing is read.
\<close>

definition read_frame :: "video \<Rightarrow> real \<Rightarrow> error option" where
  "read_frame v t = (if t = 0 then None else v_frame_error v t)"

text \<open>
  The frame at time 0 was decoded when the file was opened (\<^verbatim>\<open>VideoFileClip\<close> would
  have raised otherwise), so in a loaded video a read at 0 does not fail.
\<close>

definition audio_subclip :: "audio \<Rightarrow> real \<Rightarrow> real \<Rightarrow> error + audio" where
  "audio_subclip a t_start t_end =
     (case subclip_range (a_duration a) t_start t_end of
        Inl e \<Rightarrow> Inl e
      | Inr (s, e) \<Rightarrow>
          Inr \<lparr>a_start = a_start a, a_duration = e - s,
               make_frame = (\<lambda>t. make_frame a (t + s))\<rparr>)"

definition video_audio :: "video \<Rightarrow> audio option" where
  "video_audio v =
     (case v_audio v of
        None \<Rightarrow> None
      | Some f \<Rightarrow> Some \<lparr>a_start = 0, a_duration = v_duration v, make_frame = f\<rparr>)"

definition subclip :: "video \<Rightarrow> real \<Rightarrow> real \<Rightarrow> error + clip" where
  "subclip v t_start t_end =
     (case subclip_range (v_duration v) t_start t_end of
        Inl e \<Rightarrow> Inl e
      | Inr (s, e) \<Rightarrow>
          (case read_frame v s of
             Some err \<Rightarrow> Inl err
           | None \<Rightarrow>
               (case video_audio v of
                  None \<Rightarrow> Inr \<lparr>c_start = s, c_end = e, c_duration = e - s, c_audio = None\<rparr>
                | Some a \<Rightarrow>
                    (case audio_subclip a t_start t_end of
                       Inl err \<Rightarrow> Inl err
                     | Inr a' \<Rightarrow>
                         Inr \<lparr>c_start = s, c_end = e, c_duration = e - s,
                              c_audio = Some a'\<rparr>))))"

definition digit_char :: "nat \<Rightarrow> char" where
  "digit_char n = ''0123456789'' ! (n mod 10)"

fun string_of_nat :: "nat \<Rightarrow> string" where
  "string_of_nat n =
     (if n < 10 then [digit_char n] else string_of_nat (n div 10) @ [digit_char (n mod 10)])"

declare string_of_nat.simps [simp del]

definition string_of_int :: "int \<Rightarrow> string" where
  "string_of_int k = (if k < 0 then CHR ''-'' # string_of_nat (nat (- k)) else string_of_nat (nat k))"

definition clip_message :: "nat \<Rightarrow> int \<Rightarrow> string" where
  "clip_message i total_clips =
     string_of_nat i @ ''/'' @ string_of_int total_clips @ '' clips processed...''"

type_synonym loop_state = "clip list \<times> nat"

text \<open>The loop's state: the clips so far and the number of random draws made.\<close>

definition sample_range :: "real \<Rightarrow> real \<Rightarrow> real \<Rightarrow> real \<times> real" where
  "sample_range video_duration clip_duration u =
     (let random_start = uniform u 0 (max 0 (video_duration - clip_duration));
          random_end = random_start + clip_duration
      in (random_start, random_end))"

text \<open>Lines 69 and 70, with \<open>u\<close> the value \<^verbatim>\<open>random()\<close> returns.\<close>

definition loop_body :: "env \<Rightarrow> video \<Rightarrow> real list \<Rightarrow> int \<Rightarrow> loop_state \<Rightarrow> nat \<Rightarrow> loop_state run" where
  "loop_body env vid cut_times total_clips st i =
     (let start_time = cut_times ! i;
          end_time = cut_times ! (i + 1);
          clip_duration = end_time - start_time
      in if clip_duration \<le> 0 then lift (Inr st)
         else
           (case sample_range (v_duration vid) clip_duration (rand env (snd st)) of
              (random_start, random_end) \<Rightarrow>
                seq (lift (subclip vid random_start random_end)) (\<lambda>c.
                seq (notify env (clip_message (i + 1) total_clips)) (\<lambda>_.
                lift (Inr (fst st @ [c], snd st + 1))))))"

fun for_each :: "('s \<Rightarrow> nat \<Rightarrow> 's run) \<Rightarrow> nat list \<Rightarrow> 's \<Rightarrow> 's run" where
  "for_each body [] st = lift (Inr st)"
| "for_each body (i # is) st = seq (body st i) (for_each body is)"

definition make_clips :: "env \<Rightarrow> video \<Rightarrow> real list \<Rightarrow> (clip list) run" where
  "make_clips env vid cut_times =
     seq (for_each (loop_body env vid cut_times (int (length cut_times) - 1))
            [0..<length cut_times - 1] ([], 0))
         (\<lambda>st. lift (Inr (fst st)))"

subsection \<open>Lines 79 to 108: concatenation, sound, saving\<close>

fun cumsum_from :: "real \<Rightarrow> real list \<Rightarrow> real list" where
  "cumsum_from acc [] = []"
| "cumsum_from acc (x # xs) = (acc + x) # cumsum_from (acc + x) xs"

definition cumsum :: "real list \<Rightarrow> real list" where
  "cumsum xs = cumsum_from 0 xs"

definition set_start :: "audio \<Rightarrow> real \<Rightarrow> audio" where
  "set_start a t = a\<lparr>a_start := t\<rparr>"

definition is_playing :: "audio \<Rightarrow> real \<Rightarrow> bool" where
  "is_playing a t = (a_start a \<le> t \<and> t < a_end a)"

definition max_list :: "real list \<Rightarrow> real" where
  "max_list xs = (case xs of [] \<Rightarrow> 0 | x # ys \<Rightarrow> fold max ys x)"

definition composite_audio :: "audio list \<Rightarrow> audio" where
  "composite_audio clips =
     \<lparr>a_start = 0, a_duration = max_list (map a_end clips),
      make_frame = (\<lambda>t. sum_list (map (\<lambda>c. if is_playing c t then make_frame c (t - a_start c) else 0) clips))\<rparr>"

text \<open>
  moviepy's \<^verbatim>\<open>CompositeAudioClip\<close>: it starts at 0 and ends with the last of its
  clips, and its frame at \<open>t\<close> is the sum of the frames of the clips playing at \<open>t\<close>.
  The procedure builds it from non-empty lists only.
\<close>

definition volumex :: "audio \<Rightarrow> real \<Rightarrow> audio" where
  "volumex a factor = a\<lparr>make_frame := (\<lambda>t. factor * make_frame a t)\<rparr>"

definition concatenate_videoclips :: "clip list \<Rightarrow> error + final_video" where
  "concatenate_videoclips clips =
     (if clips = [] then Inl NoClipsError
      else
        (let tt = map (max 0) (cumsum ([0] @ map c_duration clips));
             audio_t = concat (map (\<lambda>(c, t). case c_audio c of None \<Rightarrow> [] | Some a \<Rightarrow> [(a, t)])
                                  (zip clips tt))
         in Inr \<lparr>o_clips = clips, o_duration = last tt,
                 o_audio = (if audio_t = [] then None
                            else Some (composite_audio (map (\<lambda>(a, t). set_start a t) audio_t)))\<rparr>))"

text \<open>
  \<^verbatim>\<open>concatenate_videoclips(clips, method='compose')\<close>: clip \<open>k\<close> starts where the
  clips before it end, the result lasts as long as all of them together, and its sound is
  the composite of the clips' sounds, each moved to its clip's start.
\<close>

definition mix_audio :: "audio option \<Rightarrow> audio \<Rightarrow> error + audio" where
  "mix_audio original_audio song_audio =
     (case original_audio of
        None \<Rightarrow> Inl NoAudioError
      | Some a \<Rightarrow> Inr (composite_audio [volumex a 0.5, volumex song_audio 0.5]))"

definition save :: "env \<Rightarrow> final_video \<Rightarrow> real \<Rightarrow> unit run" where
  "save env v fps =
     (case write_videofile env v of
        Some e \<Rightarrow> ([], Inl e)
      | None \<Rightarrow> ([WriteVideo v fps], Inr ()))"

definition show_success :: "env \<Rightarrow> unit run" where
  "show_success env =
     (case showinfo env of
        Some e \<Rightarrow> ([], Inl e)
      | None \<Rightarrow> ([ShowInfo ''Success'' ''The video was successfully created!''], Inr ()))"

definition audio_file_clip :: "real \<times> (real \<Rightarrow> real) \<Rightarrow> audio" where
  "audio_file_clip song = \<lparr>a_start = 0, a_duration = fst song, make_frame = snd song\<rparr>"

definition finish :: "env \<Rightarrow> video \<Rightarrow> clip list \<Rightarrow> unit run" where
  "finish env vid clips =
     seq (notify env ''Concatenating clips...'') (\<lambda>_.
     seq (lift (concatenate_videoclips clips)) (\<lambda>final.
     seq (notify env ''Merging audio...'') (\<lambda>_.
     seq (lift (load_song env)) (\<lambda>song.
     seq (lift (audio_subclip (audio_file_clip song) 0 (o_duration final))) (\<lambda>song_audio.
     seq (lift (mix_audio (o_audio final) song_audio)) (\<lambda>mixed_audio.
     seq (notify env ''Saving video...'') (\<lambda>_.
     seq (save env (final\<lparr>o_audio := Some mixed_audio\<rparr>) (v_fps vid)) (\<lambda>_.
     seq (notify env ''Process completed!'') (\<lambda>_.
     show_success env)))))))))"

subsection \<open>The whole procedure\<close>

definition pipeline :: "env \<Rightarrow> unit run" where
  "pipeline env =
     seq (analysis env) (\<lambda>cut_times.
     seq (notify env ''Loading video...'') (\<lambda>_.
     seq (lift (load_video env)) (\<lambda>vid.
     seq (make_clips env vid cut_times) (\<lambda>clips.
     finish env vid clips))))"

definition process_files :: "env \<Rightarrow> event list" where
  "process_files env =
     (case pipeline env of
        (es, Inl e) \<Rightarrow> es @ [ShowError e]
      | (es, Inr _) \<Rightarrow> es)"

text \<open>
  The \<^verbatim>\<open>try\<close> block and its handler: the events of the stages that ran, followed by
  the error dialog when one of them raised.
\<close>

subsection \<open>Notions of the statements and concrete inputs\<close>

definition sampled_from :: "video \<Rightarrow> real \<Rightarrow> clip \<Rightarrow> bool" where
  "sampled_from vid cd c \<longleftrightarrow>
     c_duration c = cd \<and> 0 \<le> c_start c \<and> c_start c \<le> max 0 (v_duration vid - cd) \<and>
     c_end c = c_start c + cd \<and>
     c_audio c = map_option (\<lambda>f. \<lparr>a_start = 0, a_duration = cd,
                                    make_frame = (\<lambda>t. f (t + c_start c))\<rparr>) (v_audio vid)"

definition positive_intervals :: "real list \<Rightarrow> nat list" where
  "positive_intervals cut_times =
     filter (\<lambda>i. 0 < cut_times ! (i + 1) - cut_times ! i) [0..<length cut_times - 1]"

fun is_progress :: "event \<Rightarrow> bool" where
  "is_progress (Progress m) = True"
| "is_progress _ = False"

definition callback_messages :: "event list \<Rightarrow> string list" where
  "callback_messages es = concat (map (\<lambda>ev. case ev of Progress m \<Rightarrow> [m] | _ \<Rightarrow> []) es)"

definition dialogs :: "event list \<Rightarrow> event list" where
  "dialogs es =
     filter (\<lambda>ev. case ev of ShowInfo a b \<Rightarrow> True | ShowError e \<Rightarrow> True | _ \<Rightarrow> False) es"

definition written :: "event list \<Rightarrow> (final_video \<times> real) list" where
  "written es = concat (map (\<lambda>ev. case ev of WriteVideo v fps \<Rightarrow> [(v, fps)] | _ \<Rightarrow> []) es)"




definition quiet :: "'a run \<Rightarrow> bool" where
  "quiet m \<longleftrightarrow> list_all is_progress (fst m)"


text \<open>
  Three invariants of runs, used in the proofs: the callback's messages are a leading part
  of an expected list, all of it when the run returns; a run only reports progress; a run
  ends as the procedure's last three stages allow.
\<close>

definition cut_from :: "video \<Rightarrow> clip \<Rightarrow> bool" where
  "cut_from vid c \<longleftrightarrow>
     0 < c_duration c \<and>
     c_audio c = map_option (\<lambda>f. \<lparr>a_start = 0, a_duration = c_duration c,
                                    make_frame = (\<lambda>t. f (t + c_start c))\<rparr>) (v_audio vid)"

text \<open>
  What the loop's clips have in common: a positive duration, and as sound the video's
  sound shifted by the clip's start, lasting as long as the clip.
\<close>

definition example_video :: video where
  "example_video =
     \<lparr>v_duration = 30, v_fps = 25, v_audio = Some (\<lambda>t. 1),
      v_frame_error =
        (\<lambda>t. if 30 - 1 / 25 < t then Some (ExternalError ''failed to read the first frame'')
             else None)\<rparr>"

definition example_env :: env where
  "example_env =
     \<lparr>load_audio = Inr (2560, 256),
      bass_energy_of = Inr [0, 1, 0, 1, 0, 0],
      load_video = Inr example_video,
      load_song = Inr (10, (\<lambda>t. 1 / 2)),
      rand = (\<lambda>k. 1 / 2),
      callback = (\<lambda>m. None),
      write_videofile = (\<lambda>v. None),
      showinfo = None\<rparr>"






definition zero_length_env :: env where
  "zero_length_env = example_env\<lparr>load_audio := Inr (0, 22050), bass_energy_of := Inr [0]\<rparr>"

text \<open>
  A curve is flat when all its values are equal. Three more environments: a song whose
  curve is flat, a curve with no frame at all, and a song with no sample (its spectrogram
  has the single frame of the padding).
\<close>

section \<open>Properties\<close>

subsection \<open>Stages and the loop\<close>

lemma seq_Inl [simp]: "seq (es, Inl e) f = (es, Inl e)"
  by (simp add: seq_def)

lemma seq_Inr [simp]: "seq (es, Inr x) f = (es @ fst (f x), snd (f x))"
  by (simp add: seq_def split: prod.splits)

lemma seq_lift_Inr [simp]: "seq (lift (Inr x)) f = f x"
  by (simp add: lift_def)

lemma seq_lift_Inl [simp]: "seq (lift (Inl e)) f = ([], Inl e)"
  by (simp add: lift_def)

lemma notify_ok: "callback env m = None \<Longrightarrow> notify env m = ([Progress m], Inr ())"
  by (simp add: notify_def)

lemma notify_raise: "callback env m = Some e \<Longrightarrow> notify env m = ([], Inl e)"
  by (simp add: notify_def)

lemma uniform_bounds:
  assumes "0 \<le> u" "u < 1" "a \<le> b"
  shows "a \<le> uniform u a b" "uniform u a b \<le> b"
proof -
  from assms have "0 \<le> (b - a) * u" by simp
  then show "a \<le> uniform u a b" by (simp add: uniform_def)
  from assms have "(b - a) * u \<le> (b - a) * 1"
    by (intro mult_left_mono) auto
  then show "uniform u a b \<le> b" by (simp add: uniform_def)
qed

lemma subclip_range_ok:
  "0 \<le> ts \<Longrightarrow> ts \<le> d \<Longrightarrow> 0 \<le> te \<Longrightarrow> subclip_range d ts te = Inr (ts, te)"
  by (simp add: subclip_range_def)

lemma subclip_ok:
  assumes "0 \<le> ts" "ts \<le> v_duration v" "0 \<le> te" "read_frame v ts = None"
  shows "subclip v ts te =
           Inr \<lparr>c_start = ts, c_end = te, c_duration = te - ts,
                c_audio = map_option (\<lambda>f. \<lparr>a_start = 0, a_duration = te - ts,
                                           make_frame = (\<lambda>t. f (t + ts))\<rparr>) (v_audio v)\<rparr>"
  using assms
  by (simp add: subclip_def video_audio_def audio_subclip_def subclip_range_ok split: option.splits)

lemma subclip_read_fails:
  assumes "0 \<le> ts" "ts \<le> v_duration v" "0 \<le> te" "read_frame v ts = Some e"
  shows "subclip v ts te = Inl e"
  using assms by (simp add: subclip_def subclip_range_ok)

lemma sample_range_bounds:
  assumes "0 \<le> u" "u < 1"
  shows "0 \<le> fst (sample_range vd cd u)"
    and "fst (sample_range vd cd u) \<le> max 0 (vd - cd)"
    and "snd (sample_range vd cd u) = fst (sample_range vd cd u) + cd"
  using uniform_bounds [OF assms, of 0 "max 0 (vd - cd)"]
  by (simp_all add: sample_range_def Let_def)

lemma subclip_sampled:
  assumes u: "0 \<le> u" "u < 1" and vd: "0 \<le> v_duration vid" and cd: "0 < cd"
    and rd: "read_frame vid (fst (sample_range (v_duration vid) cd u)) = None"
  shows "\<exists>c. subclip vid (fst (sample_range (v_duration vid) cd u))
                 (snd (sample_range (v_duration vid) cd u)) = Inr c \<and> sampled_from vid cd c"
proof -
  let ?rs = "fst (sample_range (v_duration vid) cd u)"
  let ?re = "snd (sample_range (v_duration vid) cd u)"
  have b: "0 \<le> ?rs" "?rs \<le> max 0 (v_duration vid - cd)" "?re = ?rs + cd"
    using sample_range_bounds [OF u] by auto
  then have "?rs \<le> v_duration vid" "0 \<le> ?re"
    using vd cd by auto
  with b rd show ?thesis
    by (simp add: subclip_ok sampled_from_def)
qed

lemma loop_body_skip:
  "ct ! (i + 1) - ct ! i \<le> 0 \<Longrightarrow> loop_body env vid ct tot st i = ([], Inr st)"
  by (simp add: loop_body_def lift_def)

lemma loop_body_cases:
  assumes "0 < ct ! (i + 1) - ct ! i"
  shows "(\<exists>e. loop_body env vid ct tot st i = ([], Inl e)) \<or>
         (\<exists>c. loop_body env vid ct tot st i =
                 ([Progress (clip_message (i + 1) tot)], Inr (fst st @ [c], snd st + 1)))"
proof -
  let ?r = "sample_range (v_duration vid) (ct ! (i + 1) - ct ! i) (rand env (snd st))"
  show ?thesis
  proof (cases "subclip vid (fst ?r) (snd ?r)")
    case (Inl e)
    with assms have "loop_body env vid ct tot st i = ([], Inl e)"
      by (simp add: loop_body_def case_prod_beta)
    then show ?thesis by blast
  next
    case (Inr c)
    show ?thesis
    proof (cases "callback env (clip_message (i + 1) tot)")
      case None
      with Inr assms have "loop_body env vid ct tot st i =
          ([Progress (clip_message (i + 1) tot)], Inr (fst st @ [c], snd st + 1))"
        by (simp add: loop_body_def case_prod_beta notify_ok lift_def)
      then show ?thesis by blast
    next
      case (Some e)
      with Inr assms have "loop_body env vid ct tot st i = ([], Inl e)"
        by (simp add: loop_body_def case_prod_beta notify_raise)
      then show ?thesis by blast
    qed
  qed
qed

lemma for_each_general:
  "\<exists>k. fst (for_each (loop_body env vid ct tot) idx st) =
          take k (map (\<lambda>i. Progress (clip_message (i + 1) tot))
                    (filter (\<lambda>i. 0 < ct ! (i + 1) - ct ! i) idx)) \<and>
        (\<forall>st'. snd (for_each (loop_body env vid ct tot) idx st) = Inr st' \<longrightarrow>
           fst (for_each (loop_body env vid ct tot) idx st) =
             map (\<lambda>i. Progress (clip_message (i + 1) tot))
               (filter (\<lambda>i. 0 < ct ! (i + 1) - ct ! i) idx) \<and>
           length (fst st') =
             length (fst st) + length (filter (\<lambda>i. 0 < ct ! (i + 1) - ct ! i) idx))"
proof (induction idx arbitrary: st)
  case Nil
  show ?case by (simp add: lift_def)
next
  case (Cons i idx)
  let ?msgs = "\<lambda>js. map (\<lambda>i. Progress (clip_message (i + 1) tot))
                       (filter (\<lambda>i. 0 < ct ! (i + 1) - ct ! i) js)"
  show ?case
  proof (cases "0 < ct ! (i + 1) - ct ! i")
    case False
    then have "loop_body env vid ct tot st i = ([], Inr st)"
      by (simp add: loop_body_skip)
    with False Cons.IH [of st] show ?thesis by simp
  next
    case True
    from loop_body_cases [OF True, of env vid tot st]
    consider (fail) e where "loop_body env vid ct tot st i = ([], Inl e)"
      | (clip) c where "loop_body env vid ct tot st i =
          ([Progress (clip_message (i + 1) tot)], Inr (fst st @ [c], snd st + 1))"
      by blast
    then show ?thesis
    proof cases
      case fail
      then have "for_each (loop_body env vid ct tot) (i # idx) st = ([], Inl e)"
        by simp
      then show ?thesis
        by (intro exI [of _ 0]) simp
    next
      case clip
      let ?rest = "for_each (loop_body env vid ct tot) idx (fst st @ [c], snd st + 1)"
      from Cons.IH [of "(fst st @ [c], snd st + 1)"] obtain k where
        k: "fst ?rest = take k (?msgs idx)"
           "\<forall>st'. snd ?rest = Inr st' \<longrightarrow>
              fst ?rest = ?msgs idx \<and>
              length (fst st') = length (fst (fst st @ [c], snd st + 1)) +
                length (filter (\<lambda>i. 0 < ct ! (i + 1) - ct ! i) idx)"
        by blast
      from clip have r: "for_each (loop_body env vid ct tot) (i # idx) st =
          (Progress (clip_message (i + 1) tot) # fst ?rest, snd ?rest)"
        by simp
      show ?thesis
        by (intro exI [of _ "Suc k"]) (use True r k in auto)
    qed
  qed
qed

lemma make_clips_general:
  "\<exists>k. fst (make_clips env vid ct) =
          take k (map (\<lambda>i. Progress (clip_message (i + 1) (int (length ct) - 1)))
                    (positive_intervals ct)) \<and>
        (\<forall>cs. snd (make_clips env vid ct) = Inr cs \<longrightarrow>
           fst (make_clips env vid ct) =
             map (\<lambda>i. Progress (clip_message (i + 1) (int (length ct) - 1)))
               (positive_intervals ct) \<and>
           length cs = length (positive_intervals ct))"
proof -
  let ?loop = "for_each (loop_body env vid ct (int (length ct) - 1)) [0..<length ct - 1] ([], 0)"
  let ?msgs = "map (\<lambda>i. Progress (clip_message (i + 1) (int (length ct) - 1)))
                 (positive_intervals ct)"
  have "\<exists>k. fst ?loop = take k ?msgs \<and>
          (\<forall>st'. snd ?loop = Inr st' \<longrightarrow>
             fst ?loop = ?msgs \<and> length (fst st') = length (positive_intervals ct))"
    using for_each_general [of env vid ct "int (length ct) - 1" "[0..<length ct - 1]" "([], 0)"]
    unfolding positive_intervals_def by simp
  then obtain k where
    k: "fst ?loop = take k ?msgs"
       "\<forall>st'. snd ?loop = Inr st' \<longrightarrow>
          fst ?loop = ?msgs \<and> length (fst st') = length (positive_intervals ct)"
    by blast
  have m: "fst (make_clips env vid ct) = fst ?loop"
    "snd (make_clips env vid ct) = (case snd ?loop of Inl e \<Rightarrow> Inl e | Inr st' \<Rightarrow> Inr (fst st'))"
    by (cases ?loop; cases "snd ?loop"; simp add: make_clips_def lift_def)+
  show ?thesis
  proof (intro exI [of _ k] conjI allI impI)
    show "fst (make_clips env vid ct) = take k ?msgs"
      using k m by simp
  next
    fix cs assume "snd (make_clips env vid ct) = Inr cs"
    with m obtain st' where st': "snd ?loop = Inr st'" "cs = fst st'"
      by (auto split: sum.splits)
    from k(2) st'(1) have "fst ?loop = ?msgs" "length (fst st') = length (positive_intervals ct)"
      by blast+
    with m(1) st'(2) show "fst (make_clips env vid ct) = ?msgs"
      "length cs = length (positive_intervals ct)"
      by simp_all
  qed
qed

lemma loop_body_clip:
  assumes "\<forall>i. callback env (clip_message (i + 1) tot) = None" "0 \<le> v_duration vid"
    "\<forall>k. 0 \<le> rand env k \<and> rand env k < 1" "0 < ct ! (i + 1) - ct ! i"
    "\<forall>k. read_frame vid (fst (sample_range (v_duration vid) (ct ! (i + 1) - ct ! i) (rand env k))) = None"
  shows "\<exists>c. loop_body env vid ct tot st i =
                ([Progress (clip_message (i + 1) tot)], Inr (fst st @ [c], snd st + 1)) \<and>
              sampled_from vid (ct ! (i + 1) - ct ! i) c"
proof -
  let ?cd = "ct ! (i + 1) - ct ! i"
  from assms have "\<exists>c. subclip vid (fst (sample_range (v_duration vid) ?cd (rand env (snd st))))
          (snd (sample_range (v_duration vid) ?cd (rand env (snd st)))) = Inr c \<and>
        sampled_from vid ?cd c"
    by (intro subclip_sampled) simp_all
  then obtain c where
    c: "subclip vid (fst (sample_range (v_duration vid) ?cd (rand env (snd st))))
          (snd (sample_range (v_duration vid) ?cd (rand env (snd st)))) = Inr c"
      "sampled_from vid ?cd c"
    by blast
  with assms have "loop_body env vid ct tot st i =
      ([Progress (clip_message (i + 1) tot)], Inr (fst st @ [c], snd st + 1))"
    by (simp add: loop_body_def notify_ok lift_def case_prod_beta)
  with c show ?thesis by blast
qed

lemma for_each_loop:
  assumes "\<forall>i. callback env (clip_message (i + 1) tot) = None" "0 \<le> v_duration vid"
    "\<forall>k. 0 \<le> rand env k \<and> rand env k < 1"
    "\<forall>i\<in>set idx. \<forall>k. 0 < ct ! (i + 1) - ct ! i \<longrightarrow>
       read_frame vid (fst (sample_range (v_duration vid) (ct ! (i + 1) - ct ! i) (rand env k))) = None"
  shows "\<exists>cs. for_each (loop_body env vid ct tot) idx st =
            (map (\<lambda>i. Progress (clip_message (i + 1) tot))
               (filter (\<lambda>i. 0 < ct ! (i + 1) - ct ! i) idx),
             Inr (fst st @ cs, snd st + length cs)) \<and>
          list_all2 (\<lambda>c i. sampled_from vid (ct ! (i + 1) - ct ! i) c) cs
            (filter (\<lambda>i. 0 < ct ! (i + 1) - ct ! i) idx)"
  using assms(4)
proof (induction idx arbitrary: st)
  case Nil
  show ?case by (simp add: lift_def)
next
  case (Cons i idx)
  from Cons.prems have rest: "\<forall>i\<in>set idx. \<forall>k. 0 < ct ! (i + 1) - ct ! i \<longrightarrow>
       read_frame vid (fst (sample_range (v_duration vid) (ct ! (i + 1) - ct ! i) (rand env k))) = None"
    by simp
  show ?case
  proof (cases "0 < ct ! (i + 1) - ct ! i")
    case False
    then have "loop_body env vid ct tot st i = ([], Inr st)"
      by (simp add: loop_body_skip)
    with False Cons.IH [OF rest, of st] show ?thesis by simp
  next
    case True
    with Cons.prems have rd: "\<forall>k. read_frame vid
        (fst (sample_range (v_duration vid) (ct ! (i + 1) - ct ! i) (rand env k))) = None"
      by simp
    from loop_body_clip [OF assms(1-3) True rd] obtain c where
      c: "loop_body env vid ct tot st i =
            ([Progress (clip_message (i + 1) tot)], Inr (fst st @ [c], snd st + 1))"
         "sampled_from vid (ct ! (i + 1) - ct ! i) c"
      by blast
    from Cons.IH [OF rest, of "(fst st @ [c], snd st + 1)"] obtain cs where
      cs: "for_each (loop_body env vid ct tot) idx (fst st @ [c], snd st + 1) =
            (map (\<lambda>i. Progress (clip_message (i + 1) tot))
               (filter (\<lambda>i. 0 < ct ! (i + 1) - ct ! i) idx),
             Inr ((fst st @ [c]) @ cs, (snd st + 1) + length cs))"
          "list_all2 (\<lambda>c i. sampled_from vid (ct ! (i + 1) - ct ! i) c) cs
            (filter (\<lambda>i. 0 < ct ! (i + 1) - ct ! i) idx)"
      by auto
    show ?thesis
      by (rule exI [of _ "c # cs"]) (use True c cs in simp)
  qed
qed

lemma make_clips_ok:
  assumes "\<forall>i. callback env (clip_message (i + 1) (int (length ct) - 1)) = None"
    "0 \<le> v_duration vid"
    "\<forall>k. 0 \<le> rand env k \<and> rand env k < 1"
    "\<forall>i<length ct - 1. \<forall>k. 0 < ct ! (i + 1) - ct ! i \<longrightarrow>
       read_frame vid (fst (sample_range (v_duration vid) (ct ! (i + 1) - ct ! i) (rand env k))) = None"
  shows "\<exists>cs. make_clips env vid ct =
            (map (\<lambda>i. Progress (clip_message (i + 1) (int (length ct) - 1))) (positive_intervals ct),
             Inr cs) \<and>
          list_all2 (\<lambda>c i. sampled_from vid (ct ! (i + 1) - ct ! i) c) cs (positive_intervals ct)"
proof -
  from assms(4) have rd: "\<forall>i\<in>set [0..<length ct - 1]. \<forall>k. 0 < ct ! (i + 1) - ct ! i \<longrightarrow>
       read_frame vid (fst (sample_range (v_duration vid) (ct ! (i + 1) - ct ! i) (rand env k))) = None"
    by simp
  from for_each_loop [OF assms(1-3) rd, where st = "([], 0)"]
  obtain cs where
    "for_each (loop_body env vid ct (int (length ct) - 1)) [0..<length ct - 1] ([], 0) =
       (map (\<lambda>i. Progress (clip_message (i + 1) (int (length ct) - 1))) (positive_intervals ct),
        Inr (cs, length cs))"
    "list_all2 (\<lambda>c i. sampled_from vid (ct ! (i + 1) - ct ! i) c) cs (positive_intervals ct)"
    by (auto simp: positive_intervals_def)
  then show ?thesis
    by (auto simp: make_clips_def lift_def)
qed

lemma example_env_ok:
  "\<forall>m. callback example_env m = None"
  "\<forall>k. 0 \<le> rand example_env k \<and> rand example_env k < 1"
  "0 \<le> v_duration example_video"
  by (simp_all add: example_env_def example_video_def)

lemma example_reads_ok:
  "0 < cd \<Longrightarrow>
   read_frame example_video
     (fst (sample_range (v_duration example_video) cd (rand example_env k))) = None"
  by (auto simp: read_frame_def sample_range_def uniform_def example_video_def example_env_def
      max_def Let_def)

text \<open>
  Claim C3. Whatever the cut times are, duplicates included: a pass of the loop of lines
  60 to 76 over an interval of zero (or negative) duration raises nothing, emits nothing
  and leaves the clips as they are; whenever the loop completes, it returns as many clips
  as there are intervals of strictly positive duration; and it does complete when the
  callback raises nothing, the video's duration is not negative, every random draw lies in
  \<open>[0, 1)\<close> and no frame read at a sampled start raises.
\<close>

theorem zero_duration_intervals_skipped:
  "(cut_times ! (i + 1) - cut_times ! i \<le> 0 \<longrightarrow>
      loop_body env vid cut_times tot st i = ([], Inr st)) \<and>
   (\<forall>msgs clips. make_clips env vid cut_times = (msgs, Inr clips) \<longrightarrow>
      length clips =
        length (filter (\<lambda>i. 0 < cut_times ! (i + 1) - cut_times ! i)
                  [0..<length cut_times - 1])) \<and>
   ((\<forall>m. callback env m = None) \<and> 0 \<le> v_duration vid \<and>
    (\<forall>k. 0 \<le> rand env k \<and> rand env k < 1) \<and>
    (\<forall>i<length cut_times - 1. \<forall>k. 0 < cut_times ! (i + 1) - cut_times ! i \<longrightarrow>
       read_frame vid (fst (sample_range (v_duration vid)
         (cut_times ! (i + 1) - cut_times ! i) (rand env k))) = None) \<longrightarrow>
    (\<exists>msgs clips. make_clips env vid cut_times = (msgs, Inr clips)))"
proof (intro conjI impI allI)
  assume "cut_times ! (i + 1) - cut_times ! i \<le> 0"
  then show "loop_body env vid cut_times tot st i = ([], Inr st)"
    by (rule loop_body_skip)
next
  fix msgs clips
  assume "make_clips env vid cut_times = (msgs, Inr clips)"
  with make_clips_general [of env vid cut_times]
  show "length clips =
      length (filter (\<lambda>i. 0 < cut_times ! (i + 1) - cut_times ! i) [0..<length cut_times - 1])"
    by (auto simp: positive_intervals_def)
next
  assume "(\<forall>m. callback env m = None) \<and> 0 \<le> v_duration vid \<and>
    (\<forall>k. 0 \<le> rand env k \<and> rand env k < 1) \<and>
    (\<forall>i<length cut_times - 1. \<forall>k. 0 < cut_times ! (i + 1) - cut_times ! i \<longrightarrow>
       read_frame vid (fst (sample_range (v_duration vid)
         (cut_times ! (i + 1) - cut_times ! i) (rand env k))) = None)"
  then show "\<exists>msgs clips. make_clips env vid cut_times = (msgs, Inr clips)"
    using make_clips_ok [where env = env and vid = vid and ct = cut_times] by blast
qed

theorem zero_duration_intervals_skipped_witness:
  "[0, 2, 2, 10 :: real] ! (1 + 1) - [0, 2, 2, 10] ! 1 \<le> 0 \<and>
   loop_body example_env example_video [0, 2, 2, 10] 3 ([], 0) 1 = ([], Inr ([], 0)) \<and>
   (\<exists>msgs clips. make_clips example_env example_video [0, 2, 2, 10] = (msgs, Inr clips) \<and>
      length clips = 2)"
proof -
  note t = zero_duration_intervals_skipped [of "[0, 2, 2, 10]" 1 example_env example_video 3 "([], 0)"]
  have z: "[0, 2, 2, 10 :: real] ! (1 + 1) - [0, 2, 2, 10] ! 1 \<le> 0"
    by simp
  have n: "length (filter (\<lambda>i. 0 < [0, 2, 2, 10 :: real] ! (i + 1) - [0, 2, 2, 10] ! i)
             [0..<length [0, 2, 2, 10 :: real] - 1]) = 2"
    by (simp add: upt_rec)
  have h: "(\<forall>m. callback example_env m = None) \<and> 0 \<le> v_duration example_video \<and>
    (\<forall>k. 0 \<le> rand example_env k \<and> rand example_env k < 1) \<and>
    (\<forall>i<length [0, 2, 2, 10 :: real] - 1. \<forall>k. 0 < [0, 2, 2, 10 :: real] ! (i + 1) - [0, 2, 2, 10] ! i \<longrightarrow>
       read_frame example_video (fst (sample_range (v_duration example_video)
         ([0, 2, 2, 10] ! (i + 1) - [0, 2, 2, 10] ! i) (rand example_env k))) = None)"
    using example_env_ok example_reads_ok by blast
  from t z have 1: "loop_body example_env example_video [0, 2, 2, 10] 3 ([], 0) 1 = ([], Inr ([], 0))"
    by blast
  from t h obtain msgs clips where
    m: "make_clips example_env example_video [0, 2, 2, 10] = (msgs, Inr clips)"
    by blast
  with t n have "length clips = 2" by metis
  with z 1 m show ?thesis by blast
qed

text \<open>
  Claim C4. For an interval whose duration is at most the video's, the range sampled by
  lines 69 and 70 starts at 0 or later, is as long as the interval and ends within the
  video. \<^verbatim>\<open>subclip\<close> then extracts exactly that range, unless decoding the frame at
  its start raises.
\<close>

theorem sampled_range_within_video:
  assumes "0 \<le> u" and "u < 1" and "0 < clip_duration"
    and "clip_duration \<le> v_duration vid"
    and "sample_range (v_duration vid) clip_duration u = (random_start, random_end)"
  shows "0 \<le> random_start \<and> random_end = random_start + clip_duration \<and>
         random_end \<le> v_duration vid \<and>
         (case read_frame vid random_start of
            Some e \<Rightarrow> subclip vid random_start random_end = Inl e
          | None \<Rightarrow> (\<exists>c. subclip vid random_start random_end = Inr c \<and>
                        c_start c = random_start \<and> c_end c = random_end))"
proof -
  from sample_range_bounds [OF assms(1,2), of "v_duration vid" clip_duration] assms(5)
  have b: "0 \<le> random_start" "random_start \<le> max 0 (v_duration vid - clip_duration)"
    "random_end = random_start + clip_duration"
    by simp_all
  with assms(3,4) have c: "random_end \<le> v_duration vid" "random_start \<le> v_duration vid"
    "0 \<le> random_end"
    by auto
  with b show ?thesis
    by (simp add: subclip_ok subclip_read_fails split: option.splits)
qed

theorem sampled_range_within_video_witness:
  "(0::real) \<le> 1 / 2 \<and> (1 / 2 :: real) < 1 \<and> (0::real) < 4 \<and> 4 \<le> v_duration example_video \<and>
   sample_range (v_duration example_video) 4 (1 / 2) = (13, 17) \<and>
   (0::real) \<le> 13 \<and> (17::real) = 13 + 4 \<and> 17 \<le> v_duration example_video \<and>
   read_frame example_video 13 = None \<and>
   (\<exists>c. subclip example_video 13 17 = Inr c \<and> c_start c = 13 \<and> c_end c = 17)"
proof -
  have s: "sample_range (v_duration example_video) 4 (1 / 2) = (13, 17)"
    by (simp add: sample_range_def uniform_def example_video_def)
  have v: "4 \<le> v_duration example_video"
    by (simp add: example_video_def)
  have r: "read_frame example_video 13 = None"
    by (simp add: read_frame_def example_video_def)
  from sampled_range_within_video [OF _ _ _ v s] s v r show ?thesis
    by simp
qed

text \<open>
  Claim C5. For an interval longer than the video the sampled start is 0 whatever the
  random draw, and the range handed to \<^verbatim>\<open>subclip\<close>, from 0 to the interval's
  duration, ends beyond the video's duration; \<^verbatim>\<open>subclip\<close> accepts it.
\<close>

theorem long_interval_starts_at_zero:
  assumes "v_duration vid < clip_duration" and "0 \<le> v_duration vid"
  shows "sample_range (v_duration vid) clip_duration u = (0, clip_duration) \<and>
         (\<exists>c. subclip vid 0 clip_duration = Inr c \<and> c_start c = 0 \<and>
              c_end c = clip_duration \<and> v_duration vid < c_end c)"
proof -
  from assms have "max 0 (v_duration vid - clip_duration) = 0" by simp
  then have "sample_range (v_duration vid) clip_duration u = (0, clip_duration)"
    by (simp add: sample_range_def uniform_def)
  moreover from assms have "0 \<le> clip_duration" by simp
  ultimately show ?thesis
    using assms by (simp add: subclip_ok read_frame_def)
qed

theorem long_interval_starts_at_zero_witness:
  "v_duration example_video < 40 \<and> 0 \<le> v_duration example_video \<and>
   sample_range (v_duration example_video) 40 (1 / 2) = (0, 40) \<and>
   (\<exists>c. subclip example_video 0 40 = Inr c \<and> c_start c = 0 \<and> c_end c = 40 \<and>
        v_duration example_video < c_end c)"
proof -
  have v: "v_duration example_video < 40" "0 \<le> v_duration example_video"
    by (simp_all add: example_video_def)
  from long_interval_starts_at_zero [OF v, of "1 / 2"] v show ?thesis
    by simp
qed


lemma list_all2_three:
  assumes "list_all2 P cs [a, b, c]"
  shows "\<exists>x y z. cs = [x, y, z] \<and> P x a \<and> P y b \<and> P z c"
  using assms by (auto simp: list_all2_Cons2)

text \<open>
  Claim C6. For a song of 10 seconds whose peaks are detected at 2 and 6 seconds, line 48
  builds the cut times 0, 2, 6, 10, and the loop, when the callback and the frame reads at
  the sampled starts raise nothing, returns exactly three clips, of durations 2, 4 and 4
  seconds in that order.
\<close>

theorem ten_second_song_three_segments:
  assumes "\<forall>m. callback env m = None" and "0 \<le> v_duration vid"
    and "\<forall>k. 0 \<le> rand env k \<and> rand env k < 1"
    and "\<forall>k. read_frame vid (fst (sample_range (v_duration vid) 2 (rand env k))) = None"
    and "\<forall>k. read_frame vid (fst (sample_range (v_duration vid) 4 (rand env k))) = None"
  shows "cut_times_of [2, 6] 10 = [0, 2, 6, 10] \<and>
         (\<exists>msgs clips. make_clips env vid (cut_times_of [2, 6] 10) = (msgs, Inr clips) \<and>
            map c_duration clips = [2, 4, 4])"
proof -
  have ct: "cut_times_of [2, 6] 10 = [0, 2, 6, 10]"
    by (simp add: cut_times_of_def)
  have p: "positive_intervals [0, 2, 6, 10] = [0, 1, 2]"
    by (simp add: positive_intervals_def upt_rec)
  have rd: "\<forall>i<length [0, 2, 6, 10 :: real] - 1. \<forall>k.
      0 < [0, 2, 6, 10 :: real] ! (i + 1) - [0, 2, 6, 10] ! i \<longrightarrow>
      read_frame vid (fst (sample_range (v_duration vid)
        ([0, 2, 6, 10] ! (i + 1) - [0, 2, 6, 10] ! i) (rand env k))) = None"
  proof (intro allI impI)
    fix i k :: nat
    assume "i < length [0, 2, 6, 10 :: real] - 1"
    then have "i = 0 \<or> i = 1 \<or> i = 2" by auto
    with assms(4,5)
    show "read_frame vid (fst (sample_range (v_duration vid)
        ([0, 2, 6, 10] ! (i + 1) - [0, 2, 6, 10] ! i) (rand env k))) = None"
      by (auto simp: numeral_3_eq_3)
  qed
  from assms(1) have cb: "\<forall>i. callback env (clip_message (i + 1)
      (int (length [0, 2, 6, 10 :: real]) - 1)) = None"
    by blast
  from make_clips_ok [OF cb assms(2,3) rd] p obtain msgs cs where
    m: "make_clips env vid [0, 2, 6, 10] = (msgs, Inr cs)"
    and l: "list_all2 (\<lambda>c i. sampled_from vid ([0, 2, 6, 10] ! (i + 1) - [0, 2, 6, 10] ! i) c)
              cs [0, 1, 2]"
    by auto
  from list_all2_three [OF l] have "map c_duration cs = [2, 4, 4]"
    by (auto simp: sampled_from_def)
  with m ct show ?thesis by simp
qed

theorem ten_second_song_three_segments_witness:
  "(\<forall>m. callback example_env m = None) \<and> 0 \<le> v_duration example_video \<and>
   (\<forall>k. 0 \<le> rand example_env k \<and> rand example_env k < 1) \<and>
   (\<forall>k. read_frame example_video
          (fst (sample_range (v_duration example_video) 2 (rand example_env k))) = None) \<and>
   (\<forall>k. read_frame example_video
          (fst (sample_range (v_duration example_video) 4 (rand example_env k))) = None) \<and>
   cut_times_of [2, 6] 10 = [0, 2, 6, 10] \<and>
   (\<exists>msgs clips. make_clips example_env example_video (cut_times_of [2, 6] 10) =
       (msgs, Inr clips) \<and> map c_duration clips = [2, 4, 4])"
proof -
  have r: "\<forall>k. read_frame example_video
          (fst (sample_range (v_duration example_video) 2 (rand example_env k))) = None"
      "\<forall>k. read_frame example_video
          (fst (sample_range (v_duration example_video) 4 (rand example_env k))) = None"
    by (simp_all add: example_reads_ok)
  from ten_second_song_three_segments [OF example_env_ok(1) example_env_ok(3) example_env_ok(2) r]
    example_env_ok r
  show ?thesis by blast
qed






subsection \<open>The events of a run\<close>

lemma fst_seq: "fst (seq m f) = fst m @ (case snd m of Inl e \<Rightarrow> [] | Inr x \<Rightarrow> fst (f x))"
  by (cases m; cases "snd m") (auto simp: seq_def split: prod.splits)

lemma snd_seq: "snd (seq m f) = (case snd m of Inl e \<Rightarrow> Inl e | Inr x \<Rightarrow> snd (f x))"
  by (cases m; cases "snd m") (auto simp: seq_def split: prod.splits)

lemma callback_messages_simps [simp]:
  "callback_messages [] = []"
  "callback_messages (Progress m # es) = m # callback_messages es"
  "callback_messages (WriteVideo v fps # es) = callback_messages es"
  "callback_messages (ShowInfo a b # es) = callback_messages es"
  "callback_messages (ShowError e # es) = callback_messages es"
  "callback_messages (es @ es') = callback_messages es @ callback_messages es'"
  by (simp_all add: callback_messages_def)

lemma dialogs_simps [simp]:
  "dialogs [] = []"
  "dialogs (Progress m # es) = dialogs es"
  "dialogs (WriteVideo v fps # es) = dialogs es"
  "dialogs (ShowInfo a b # es) = ShowInfo a b # dialogs es"
  "dialogs (ShowError e # es) = ShowError e # dialogs es"
  "dialogs (es @ es') = dialogs es @ dialogs es'"
  by (simp_all add: dialogs_def)

lemma written_simps [simp]:
  "written [] = []"
  "written (Progress m # es) = written es"
  "written (WriteVideo v fps # es) = (v, fps) # written es"
  "written (ShowInfo a b # es) = written es"
  "written (ShowError e # es) = written es"
  "written (es @ es') = written es @ written es'"
  by (simp_all add: written_def)


lemma progress_only:
  assumes "list_all is_progress es"
  shows "dialogs es = []" and "written es = []"
  using assms
proof (induction es)
  case Nil
  { case 1 show ?case by simp }
  { case 2 show ?case by simp }
next
  case (Cons ev es)
  { case 1 with Cons.IH show ?case by (cases ev) simp_all }
  { case 2 with Cons.IH show ?case by (cases ev) simp_all }
qed
















lemma quiet_lift: "quiet (lift r)"
  by (simp add: quiet_def lift_def)

lemma quiet_notify: "quiet (notify env m)"
  by (simp add: quiet_def notify_def split: option.splits)

lemma quiet_seq:
  assumes "quiet m" and "\<And>x. snd m = Inr x \<Longrightarrow> quiet (f x)"
  shows "quiet (seq m f)"
  using assms by (cases "snd m") (simp_all add: quiet_def fst_seq)

lemma quiet_lift_seq:
  assumes "\<And>x. r = Inr x \<Longrightarrow> quiet (f x)"
  shows "quiet (seq (lift r) f)"
  using quiet_seq [OF quiet_lift, of r f] assms by (simp add: lift_def)

lemma quiet_notify_seq:
  assumes "quiet (f ())"
  shows "quiet (seq (notify env m) f)"
  using quiet_seq [OF quiet_notify, of env m f] assms by simp

lemma list_all_is_progress_take:
  "list_all is_progress (take k (map (\<lambda>i. Progress (g i)) xs))"
proof -
  have "is_progress x" if "x \<in> set (take k (map (\<lambda>i. Progress (g i)) xs))" for x
  proof -
    from that have "x \<in> set (map (\<lambda>i. Progress (g i)) xs)"
      by (rule in_set_takeD)
    then show ?thesis by auto
  qed
  then show ?thesis
    by (simp add: list_all_iff)
qed

lemma quiet_make_clips: "quiet (make_clips env vid ct)"
proof -
  from make_clips_general [of env vid ct] obtain k where
    "fst (make_clips env vid ct) =
       take k (map (\<lambda>i. Progress (clip_message (i + 1) (int (length ct) - 1)))
                 (positive_intervals ct))"
    by blast
  then show ?thesis
    unfolding quiet_def by (simp only: list_all_is_progress_take)
qed

lemma quiet_analysis: "quiet (analysis env)"
  unfolding analysis_def case_prod_beta
  by (intro quiet_lift_seq quiet_notify_seq quiet_lift)









lemma process_files_events:
  "process_files env =
     fst (pipeline env) @ (case snd (pipeline env) of Inl e \<Rightarrow> [ShowError e] | Inr x \<Rightarrow> [])"
  by (cases "pipeline env"; cases "snd (pipeline env)") (auto simp: process_files_def)


lemma example_local_maxima: "local_maxima_1d [0, 1, 0, 1, 0, 0] = [1, 3]"
  by (simp add: local_maxima_1d_def local_maxima_from.simps skip_equal.simps)

lemma example_analysis:
  "analysis example_env =
     ([Progress ''Calculating STFT...'', Progress ''Detecting peak points...''],
      Inr [0, 2, 6, 10])"
  by (simp add: analysis_def example_env_def get_duration_def notify_def detect_peaks_def
      np_max_def find_peaks_def example_local_maxima take_indices_def frames_to_time_def
      hop_length_def cut_times_of_def upt_rec lift_def)

lemma analysis_load_video [simp]: "analysis (env\<lparr>load_video := x\<rparr>) = analysis env"
  by (simp add: analysis_def notify_def)






subsection \<open>A run that succeeds\<close>

lemma written_quiet: "quiet m \<Longrightarrow> written (fst m) = []"
  by (simp add: quiet_def progress_only)

lemma finish_success:
  assumes "snd (finish env vid clips) = Inr ()"
  shows "\<exists>final song song_audio mixed.
           concatenate_videoclips clips = Inr final \<and> load_song env = Inr song \<and>
           audio_subclip (audio_file_clip song) 0 (o_duration final) = Inr song_audio \<and>
           mix_audio (o_audio final) song_audio = Inr mixed \<and>
           written (fst (finish env vid clips)) =
             [(final\<lparr>o_audio := Some mixed\<rparr>, v_fps vid)]"
  using assms
  by (auto simp: finish_def fst_seq snd_seq notify_def lift_def save_def show_success_def
      split: sum.splits option.splits)

lemma pipeline_success:
  assumes "snd (pipeline env) = Inr ()"
  shows "\<exists>ct vid clips. snd (analysis env) = Inr ct \<and> load_video env = Inr vid \<and>
           snd (make_clips env vid ct) = Inr clips \<and> snd (finish env vid clips) = Inr () \<and>
           written (fst (pipeline env)) = written (fst (finish env vid clips))"
  using assms written_quiet [OF quiet_analysis, of env] written_quiet [OF quiet_make_clips, of env]
  by (auto simp: pipeline_def fst_seq snd_seq notify_def lift_def
      split: sum.splits option.splits)


lemma subclip_Inr:
  assumes "0 \<le> ts" "0 \<le> te" "subclip v ts te = Inr c"
  shows "c = \<lparr>c_start = ts, c_end = te, c_duration = te - ts,
              c_audio = map_option (\<lambda>f. \<lparr>a_start = 0, a_duration = te - ts,
                                         make_frame = (\<lambda>t. f (t + ts))\<rparr>) (v_audio v)\<rparr>"
  using assms
  by (auto simp: subclip_def subclip_range_def video_audio_def audio_subclip_def Let_def
      split: if_splits option.splits sum.splits)

lemma loop_body_cases_cut:
  assumes "0 < ct ! (i + 1) - ct ! i" and "\<forall>k. 0 \<le> rand env k"
  shows "(\<exists>e. loop_body env vid ct tot st i = ([], Inl e)) \<or>
         (\<exists>c. loop_body env vid ct tot st i =
                 ([Progress (clip_message (i + 1) tot)], Inr (fst st @ [c], snd st + 1)) \<and>
               cut_from vid c)"
proof -
  let ?cd = "ct ! (i + 1) - ct ! i"
  let ?r = "sample_range (v_duration vid) ?cd (rand env (snd st))"
  from assms(2) have "0 \<le> max 0 (v_duration vid - ?cd) * rand env (snd st)"
    by (intro mult_nonneg_nonneg) simp_all
  then have rs: "0 \<le> fst ?r" and re: "snd ?r = fst ?r + ?cd"
    by (simp_all add: sample_range_def uniform_def Let_def)
  with assms(1) have re0: "0 \<le> snd ?r" by simp
  show ?thesis
  proof (cases "subclip vid (fst ?r) (snd ?r)")
    case (Inl e)
    with assms(1) have "loop_body env vid ct tot st i = ([], Inl e)"
      by (simp add: loop_body_def case_prod_beta)
    then show ?thesis by blast
  next
    case (Inr c)
    from subclip_Inr [OF rs re0 Inr] re assms(1) have cut: "cut_from vid c"
      by (simp add: cut_from_def)
    show ?thesis
    proof (cases "callback env (clip_message (i + 1) tot)")
      case None
      with Inr assms(1) have "loop_body env vid ct tot st i =
          ([Progress (clip_message (i + 1) tot)], Inr (fst st @ [c], snd st + 1))"
        by (simp add: loop_body_def case_prod_beta notify_ok lift_def)
      with cut show ?thesis by blast
    next
      case (Some e)
      with Inr assms(1) have "loop_body env vid ct tot st i = ([], Inl e)"
        by (simp add: loop_body_def case_prod_beta notify_raise)
      then show ?thesis by blast
    qed
  qed
qed

lemma for_each_completed:
  assumes "\<forall>k. 0 \<le> rand env k"
    and "snd (for_each (loop_body env vid ct tot) idx st) = Inr st'"
    and "list_all (cut_from vid) (fst st)"
  shows "list_all (cut_from vid) (fst st')"
  using assms(2,3)
proof (induction idx arbitrary: st)
  case Nil
  then show ?case by (simp add: lift_def)
next
  case (Cons i idx)
  show ?case
  proof (cases "0 < ct ! (i + 1) - ct ! i")
    case False
    then have "loop_body env vid ct tot st i = ([], Inr st)"
      by (simp add: loop_body_skip)
    with Cons show ?thesis by simp
  next
    case True
    from loop_body_cases_cut [OF True assms(1), of vid tot st]
    consider (fail) e where "loop_body env vid ct tot st i = ([], Inl e)"
      | (clip) c where "loop_body env vid ct tot st i =
          ([Progress (clip_message (i + 1) tot)], Inr (fst st @ [c], snd st + 1))"
          "cut_from vid c"
      by blast
    then show ?thesis
    proof cases
      case fail
      with Cons.prems(1) show ?thesis by simp
    next
      case clip
      with Cons.prems have
        "snd (for_each (loop_body env vid ct tot) idx (fst st @ [c], snd st + 1)) = Inr st'"
        "list_all (cut_from vid) (fst (fst st @ [c], snd st + 1))"
        by simp_all
      then show ?thesis by (rule Cons.IH)
    qed
  qed
qed

lemma make_clips_completed:
  assumes "\<forall>k. 0 \<le> rand env k" and "snd (make_clips env vid ct) = Inr cs"
  shows "list_all (cut_from vid) cs"
proof -
  let ?loop = "for_each (loop_body env vid ct (int (length ct) - 1)) [0..<length ct - 1] ([], 0)"
  from assms(2) obtain st' where st': "snd ?loop = Inr st'" "cs = fst st'"
    by (cases ?loop; cases "snd ?loop") (auto simp: make_clips_def lift_def)
  from for_each_completed [OF assms(1) st'(1)] st'(2) show ?thesis
    by simp
qed

lemma cumsum_from_nonneg:
  "\<forall>d\<in>set ds. 0 \<le> d \<Longrightarrow> 0 \<le> a \<Longrightarrow> map (max 0) (cumsum_from a ds) = cumsum_from a ds"
  by (induction ds arbitrary: a) simp_all

lemma last_cumsum_from: "last (a # cumsum_from a ds) = a + sum_list ds"
  by (induction ds arbitrary: a) simp_all

lemma fold_max_cumsum_from:
  "\<forall>d\<in>set ds. 0 \<le> d \<Longrightarrow> m \<le> a \<Longrightarrow>
   fold max (cumsum_from a ds) m = (if ds = [] then m else a + sum_list ds)"
proof (induction ds arbitrary: a m)
  case Nil
  show ?case by simp
next
  case (Cons d ds)
  then have "max (a + d) m = a + d" and "a + d \<le> a + d" and "\<forall>d\<in>set ds. 0 \<le> d"
    by simp_all
  with Cons.IH [of "a + d" "a + d"] show ?case
    by (simp add: add.assoc)
qed

lemma max_list_cumsum_from:
  assumes "\<forall>d\<in>set ds. 0 \<le> d" and "ds \<noteq> []"
  shows "max_list (cumsum_from a ds) = a + sum_list ds"
proof -
  from assms(2) obtain d ds' where ds: "ds = d # ds'"
    by (cases ds) auto
  with assms(1) have "\<forall>d\<in>set ds'. 0 \<le> d" by simp
  from fold_max_cumsum_from [OF this, of "a + d" "a + d"] ds show ?thesis
    by (simp add: max_list_def add.assoc)
qed

lemma audio_ends:
  assumes "list_all (cut_from vid) cs" and "v_audio vid = Some f"
  shows "map a_end (map (\<lambda>(a, t). set_start a t)
           (concat (map (\<lambda>(c, t). case c_audio c of None \<Rightarrow> [] | Some a \<Rightarrow> [(a, t)])
              (zip cs (acc # cumsum_from acc (map c_duration cs)))))) =
         cumsum_from acc (map c_duration cs)"
  using assms(1)
proof (induction cs arbitrary: acc)
  case Nil
  show ?case by simp
next
  case (Cons c cs)
  from Cons.prems have ch: "cut_from vid c" and rest: "list_all (cut_from vid) cs"
    by simp_all
  from ch assms(2) have c: "c_audio c = Some \<lparr>a_start = 0, a_duration = c_duration c,
      make_frame = (\<lambda>t. f (t + c_start c))\<rparr>"
    by (simp add: cut_from_def)
  from Cons.IH [OF rest, of "acc + c_duration c"] c show ?case
    by (simp add: set_start_def a_end_def)
qed

lemma no_audio:
  assumes "list_all (cut_from vid) cs" and "v_audio vid = None"
  shows "concat (map (\<lambda>(c, t). case c_audio c of None \<Rightarrow> [] | Some a \<Rightarrow> [(a, t)])
           (zip cs ts)) = []"
  using assms(1)
proof (induction cs arbitrary: ts)
  case Nil
  show ?case by simp
next
  case (Cons c cs)
  from Cons.prems have ch: "cut_from vid c" and rest: "list_all (cut_from vid) cs"
    by simp_all
  from ch assms(2) have "c_audio c = None"
    by (simp add: cut_from_def)
  with Cons.IH [OF rest] show ?case
    by (cases ts) simp_all
qed

lemma concatenate_cut:
  assumes cut: "list_all (cut_from vid) cs" and fin: "concatenate_videoclips cs = Inr final"
  shows "o_clips final = cs"
    and "o_duration final = sum_list (map c_duration cs)"
    and "0 < o_duration final"
    and "v_audio vid = None \<Longrightarrow> o_audio final = None"
    and "v_audio vid \<noteq> None \<Longrightarrow>
           \<exists>native. o_audio final = Some native \<and> a_start native = 0 \<and>
             a_duration native = o_duration final"
proof -
  let ?ds = "map c_duration cs"
  from fin have ne: "cs \<noteq> []"
    by (auto simp: concatenate_videoclips_def split: if_splits)
  from cut have pos: "\<forall>d\<in>set ?ds. 0 < d"
    by (auto simp: list_all_iff cut_from_def)
  then have nonneg: "\<forall>d\<in>set ?ds. 0 \<le> d"
    by (simp add: less_imp_le)
  have tt: "map (max 0) (cumsum ([0] @ ?ds)) = 0 # cumsum_from 0 ?ds"
    using cumsum_from_nonneg [OF nonneg, of 0] by (simp add: cumsum_def)
  let ?audio_t = "concat (map (\<lambda>(c, t). case c_audio c of None \<Rightarrow> [] | Some a \<Rightarrow> [(a, t)])
                     (zip cs (0 # cumsum_from 0 ?ds)))"
  have "concatenate_videoclips cs = Inr \<lparr>o_clips = cs, o_duration = last (0 # cumsum_from 0 ?ds),
      o_audio = (if ?audio_t = [] then None
                 else Some (composite_audio (map (\<lambda>(a, t). set_start a t) ?audio_t)))\<rparr>"
    unfolding concatenate_videoclips_def Let_def tt by (simp only: ne if_False)
  with fin have final: "final = \<lparr>o_clips = cs, o_duration = last (0 # cumsum_from 0 ?ds),
      o_audio = (if ?audio_t = [] then None
                 else Some (composite_audio (map (\<lambda>(a, t). set_start a t) ?audio_t)))\<rparr>"
    by (simp only: sum.inject)
  then show "o_clips final = cs" by simp
  from final show d: "o_duration final = sum_list ?ds"
    by (simp only: last_cumsum_from) simp
  from ne obtain c cs' where "cs = c # cs'" by (cases cs) auto
  then have c: "cs = c # cs'" .
  have "0 \<le> sum_list (map c_duration cs')"
  proof (rule sum_list_nonneg)
    fix x assume "x \<in> set (map c_duration cs')"
    with nonneg c show "0 \<le> x" by auto
  qed
  moreover from pos c have "0 < c_duration c" by simp
  ultimately show "0 < o_duration final"
    using c d by simp
  {
    assume "v_audio vid = None"
    from no_audio [OF cut this] final show "o_audio final = None" by simp
  }
  {
    assume "v_audio vid \<noteq> None"
    then obtain f where f: "v_audio vid = Some f" by auto
    from audio_ends [OF cut f, of 0]
    have ends: "map a_end (map (\<lambda>(a, t). set_start a t) ?audio_t) = cumsum_from 0 ?ds" .
    from ne have cne: "cumsum_from 0 ?ds \<noteq> []" by (cases cs) simp_all
    have "?audio_t \<noteq> []"
    proof
      assume "?audio_t = []"
      with ends have "[] = cumsum_from 0 ?ds" by (simp only: list.map)
      with cne show False by simp
    qed
    define L where "L = map (\<lambda>(a, t). set_start a t) ?audio_t"
    from ends have endsL: "map a_end L = cumsum_from 0 ?ds"
      by (simp only: L_def)
    from \<open>?audio_t \<noteq> []\<close> final have "o_audio final = Some (composite_audio L)"
      by (simp only: L_def if_False final_video.simps)
    moreover have "a_start (composite_audio L) = 0"
      by (simp add: composite_audio_def)
    moreover have "a_duration (composite_audio L) = max_list (map a_end L)"
      by (simp add: composite_audio_def)
    with endsL ne have "a_duration (composite_audio L) = sum_list ?ds"
      using max_list_cumsum_from [OF nonneg, of 0] by simp
    ultimately show "\<exists>native. o_audio final = Some native \<and> a_start native = 0 \<and>
        a_duration native = o_duration final"
      using d by simp
  }
qed


lemma mixed_audio_frames:
  assumes n: "a_start native = 0" "a_duration native = D" and D: "0 \<le> D"
    and sa: "audio_subclip (audio_file_clip song) 0 D = Inr song_audio"
    and mx: "mix_audio (Some native) song_audio = Inr mixed"
  shows "a_start mixed = 0" and "a_duration mixed = D"
    and "0 \<le> t \<Longrightarrow> t < D \<Longrightarrow>
           make_frame mixed t = 0.5 * make_frame native t + 0.5 * snd song t"
proof -
  from sa D have s: "song_audio =
      \<lparr>a_start = 0, a_duration = D, make_frame = (\<lambda>t. snd song (t + 0))\<rparr>"
    by (auto simp: audio_subclip_def subclip_range_def audio_file_clip_def Let_def
        split: if_splits)
  from mx have m: "mixed = composite_audio [volumex native 0.5, volumex song_audio 0.5]"
    by (simp add: mix_audio_def)
  show "a_start mixed = 0"
    by (simp add: m composite_audio_def)
  show "a_duration mixed = D"
    by (simp add: m s composite_audio_def volumex_def a_end_def max_list_def n)
  show "make_frame mixed t = 0.5 * make_frame native t + 0.5 * snd song t"
    if "0 \<le> t" "t < D"
    using that
    by (simp add: m s composite_audio_def volumex_def a_end_def is_playing_def n)
qed

lemma audio_subclip_song:
  assumes "0 \<le> fst song" and "0 \<le> D"
  shows "\<exists>song_audio. audio_subclip (audio_file_clip song) 0 D = Inr song_audio"
  using assms by (simp add: audio_subclip_def subclip_range_def audio_file_clip_def)

lemma last_clip_message: "last (clip_message i tot) = CHR ''.''"
  by (simp add: clip_message_def)

lemma clip_message_not_completed: "clip_message i tot \<noteq> ''Process completed!''"
proof
  assume "clip_message i tot = ''Process completed!''"
  then have "last (clip_message i tot) = last ''Process completed!''" by simp
  then show False by (simp add: last_clip_message)
qed

lemma pipeline_runs:
  assumes cb: "\<forall>m. m \<noteq> ''Process completed!'' \<longrightarrow> callback env m = None"
    and an: "snd (analysis env) = Inr ct" and lv: "load_video env = Inr vid"
    and vd: "0 \<le> v_duration vid"
    and rnd: "\<forall>k. 0 \<le> rand env k \<and> rand env k < 1"
    and rd: "\<forall>i<length ct - 1. \<forall>k. 0 < ct ! (i + 1) - ct ! i \<longrightarrow>
       read_frame vid (fst (sample_range (v_duration vid) (ct ! (i + 1) - ct ! i) (rand env k))) = None"
    and pos: "positive_intervals ct \<noteq> []"
    and au: "v_audio vid \<noteq> None"
    and ls: "load_song env = Inr song" "0 \<le> fst song"
    and wr: "\<forall>v. write_videofile env v = None"
  shows "\<exists>pre v. list_all is_progress pre \<and>
           fst (pipeline env) = pre @ [WriteVideo v (v_fps vid)] @
             fst (seq (notify env ''Process completed!'') (\<lambda>_. show_success env)) \<and>
           snd (pipeline env) =
             snd (seq (notify env ''Process completed!'') (\<lambda>_. show_success env))"
proof -
  let ?tail = "seq (notify env ''Process completed!'') (\<lambda>_. show_success env)"
  from cb have cbm: "\<forall>i. callback env (clip_message (i + 1) (int (length ct) - 1)) = None"
    by (simp add: clip_message_not_completed)
  from make_clips_ok [OF cbm vd rnd rd] obtain cs where
    mc: "make_clips env vid ct =
          (map (\<lambda>i. Progress (clip_message (i + 1) (int (length ct) - 1))) (positive_intervals ct),
           Inr cs)"
    and l2: "list_all2 (\<lambda>c i. sampled_from vid (ct ! (i + 1) - ct ! i) c) cs (positive_intervals ct)"
    by blast
  from l2 pos have ne: "cs \<noteq> []" by auto
  from rnd have "\<forall>k. 0 \<le> rand env k" by simp
  from make_clips_completed [OF this, of vid ct cs] mc have cut: "list_all (cut_from vid) cs"
    by simp
  from ne obtain final where fin: "concatenate_videoclips cs = Inr final"
    by (simp add: concatenate_videoclips_def Let_def)
  from concatenate_cut(3) [OF cut fin] have D: "0 \<le> o_duration final" by simp
  from concatenate_cut(5) [OF cut fin au] obtain native where
    nat: "o_audio final = Some native"
    by blast
  from audio_subclip_song [OF ls(2) D] obtain song_audio where
    sa: "audio_subclip (audio_file_clip song) 0 (o_duration final) = Inr song_audio"
    by blast
  from nat obtain mixed where mx: "mix_audio (o_audio final) song_audio = Inr mixed"
    by (simp add: mix_audio_def)
  from cb have c: "callback env ''Loading video...'' = None"
    "callback env ''Concatenating clips...'' = None"
    "callback env ''Merging audio...'' = None"
    "callback env ''Saving video...'' = None"
    by simp_all
  let ?pre = "fst (analysis env) @ [Progress ''Loading video...''] @
      map (\<lambda>i. Progress (clip_message (i + 1) (int (length ct) - 1))) (positive_intervals ct) @
      [Progress ''Concatenating clips...'', Progress ''Merging audio...'',
       Progress ''Saving video...'']"
  have fi: "finish env vid cs =
      ([Progress ''Concatenating clips...'', Progress ''Merging audio...'',
        Progress ''Saving video...'', WriteVideo (final\<lparr>o_audio := Some mixed\<rparr>) (v_fps vid)] @
       fst ?tail, snd ?tail)"
    using fin ls(1) sa mx wr c
    by (simp add: finish_def notify_ok lift_def save_def)
  from an have a: "analysis env = (fst (analysis env), Inr ct)"
    by (cases "analysis env") simp
  have "pipeline env = (?pre @ [WriteVideo (final\<lparr>o_audio := Some mixed\<rparr>) (v_fps vid)] @
      fst ?tail, snd ?tail)"
    unfolding pipeline_def by (subst a) (simp add: notify_ok c lv lift_def mc fi)
  moreover have "list_all is_progress ?pre"
    using quiet_analysis [of env] by (auto simp: quiet_def list_all_iff)
  ultimately show ?thesis
    by (intro exI [of _ ?pre] exI [of _ "final\<lparr>o_audio := Some mixed\<rparr>"]) simp
qed


lemma example_pipeline_runs:
  "\<exists>pre v. list_all is_progress pre \<and>
     pipeline example_env =
       (pre @ [WriteVideo v (v_fps example_video), Progress ''Process completed!'',
               ShowInfo ''Success'' ''The video was successfully created!''], Inr ())"
proof -
  have an: "snd (analysis example_env) = Inr [0, 2, 6, 10]"
    by (simp add: example_analysis)
  have rd: "\<forall>i<length [0, 2, 6, 10::real] - 1. \<forall>k.
      0 < [0, 2, 6, 10::real] ! (i + 1) - [0, 2, 6, 10] ! i \<longrightarrow>
      read_frame example_video
        (fst (sample_range (v_duration example_video)
           ([0, 2, 6, 10] ! (i + 1) - [0, 2, 6, 10] ! i) (rand example_env k))) = None"
    using example_reads_ok by blast
  have pos: "positive_intervals [0, 2, 6, 10] \<noteq> []"
    by (simp add: positive_intervals_def upt_rec)
  have tail: "seq (notify example_env ''Process completed!'') (\<lambda>_. show_success example_env) =
      ([Progress ''Process completed!'',
        ShowInfo ''Success'' ''The video was successfully created!''], Inr ())"
    by (simp add: notify_def show_success_def example_env_def seq_def)
  have cb: "\<forall>m. m \<noteq> ''Process completed!'' \<longrightarrow> callback example_env m = None"
    using example_env_ok(1) by simp
  have lv: "load_video example_env = Inr example_video"
    and au: "v_audio example_video \<noteq> None"
    and ls: "load_song example_env = Inr (10, \<lambda>t. 1 / 2)" "0 \<le> fst (10::real, \<lambda>t::real. 1 / 2 :: real)"
    and wr: "\<forall>v. write_videofile example_env v = None"
    by (simp_all add: example_env_def example_video_def)
  from pipeline_runs [OF cb an lv example_env_ok(3) example_env_ok(2) rd pos au ls wr]
  obtain pre v where "list_all is_progress pre"
    "fst (pipeline example_env) = pre @ [WriteVideo v (v_fps example_video)] @
       fst (seq (notify example_env ''Process completed!'') (\<lambda>_. show_success example_env))"
    "snd (pipeline example_env) =
       snd (seq (notify example_env ''Process completed!'') (\<lambda>_. show_success example_env))"
    by blast
  then show ?thesis
    by (cases "pipeline example_env") (auto simp: tail)
qed

text \<open>
  Claim C7. In every run that succeeds (the random draws being those of
  \<open>random.random\<close>, in \<open>[0, 1)\<close>), the file written is the concatenation of the loop's
  clips with its sound replaced by one mixed track. The concatenation has a sound of its
  own; the mixed track starts at 0, lasts exactly as long as the concatenated video, and
  at every instant of that span its sample is half the sample of the concatenation's own
  sound plus half the sample of the song, the song being read from its beginning.
\<close>

theorem mixed_audio_of_successful_run:
  assumes "snd (pipeline env) = Inr ()" and "\<forall>k. 0 \<le> rand env k \<and> rand env k < 1"
  shows "\<exists>cut_times vid clips final native song mixed.
           snd (analysis env) = Inr cut_times \<and> load_video env = Inr vid \<and>
           snd (make_clips env vid cut_times) = Inr clips \<and>
           concatenate_videoclips clips = Inr final \<and> o_audio final = Some native \<and>
           o_duration final = sum_list (map c_duration clips) \<and>
           load_song env = Inr song \<and>
           written (process_files env) = [(final\<lparr>o_audio := Some mixed\<rparr>, v_fps vid)] \<and>
           a_start mixed = 0 \<and> a_duration mixed = o_duration final \<and>
           (\<forall>t. 0 \<le> t \<and> t < o_duration final \<longrightarrow>
              make_frame mixed t = 0.5 * make_frame native t + 0.5 * snd song t)"
proof -
  from pipeline_success [OF assms(1)] obtain ct vid clips where
    an: "snd (analysis env) = Inr ct" and lv: "load_video env = Inr vid"
    and mc: "snd (make_clips env vid ct) = Inr clips"
    and fi: "snd (finish env vid clips) = Inr ()"
    and wr: "written (fst (pipeline env)) = written (fst (finish env vid clips))"
    by blast
  from finish_success [OF fi] obtain final song song_audio mixed where
    fin: "concatenate_videoclips clips = Inr final" and ls: "load_song env = Inr song"
    and sa: "audio_subclip (audio_file_clip song) 0 (o_duration final) = Inr song_audio"
    and mx: "mix_audio (o_audio final) song_audio = Inr mixed"
    and wf: "written (fst (finish env vid clips)) = [(final\<lparr>o_audio := Some mixed\<rparr>, v_fps vid)]"
    by blast
  from assms(2) have "\<forall>k. 0 \<le> rand env k" by simp
  from make_clips_completed [OF this mc] have cut: "list_all (cut_from vid) clips" .
  from mx obtain native where nat: "o_audio final = Some native"
    by (cases "o_audio final") (simp_all add: mix_audio_def)
  with concatenate_cut(4) [OF cut fin] have "v_audio vid \<noteq> None"
    by auto
  from concatenate_cut(5) [OF cut fin this] nat
  have n: "a_start native = 0" "a_duration native = o_duration final"
    by auto
  from concatenate_cut(3) [OF cut fin] have D: "0 \<le> o_duration final" by simp
  from mx nat have mx': "mix_audio (Some native) song_audio = Inr mixed" by simp
  note mf = mixed_audio_frames [OF n D sa mx']
  have w: "written (process_files env) = [(final\<lparr>o_audio := Some mixed\<rparr>, v_fps vid)]"
    using assms(1) wr wf by (simp add: process_files_events)
  have fr: "\<forall>t. 0 \<le> t \<and> t < o_duration final \<longrightarrow>
      make_frame mixed t = 0.5 * make_frame native t + 0.5 * snd song t"
    using mf(3) by blast
  from an lv mc fin nat concatenate_cut(2) [OF cut fin] ls w mf(1) mf(2) fr
  show ?thesis by blast
qed

theorem mixed_audio_of_successful_run_witness:
  "snd (pipeline example_env) = Inr () \<and>
   (\<forall>k. 0 \<le> rand example_env k \<and> rand example_env k < 1) \<and>
   (\<exists>clips final native mixed.
      snd (make_clips example_env example_video [0, 2, 6, 10]) = Inr clips \<and>
      concatenate_videoclips clips = Inr final \<and> o_audio final = Some native \<and>
      o_duration final = sum_list (map c_duration clips) \<and>
      written (process_files example_env) = [(final\<lparr>o_audio := Some mixed\<rparr>, 25)] \<and>
      a_start mixed = 0 \<and> a_duration mixed = o_duration final \<and>
      (\<forall>t. 0 \<le> t \<and> t < o_duration final \<longrightarrow>
         make_frame mixed t = 0.5 * make_frame native t + 0.5 * (1 / 2)))"
proof -
  from example_pipeline_runs have ok: "snd (pipeline example_env) = Inr ()"
    by auto
  have a: "snd (analysis example_env) = Inr [0, 2, 6, 10]"
    by (simp add: example_analysis)
  have "load_video example_env = Inr example_video"
    "load_song example_env = Inr (10, \<lambda>t. 1 / 2)"
    "v_fps example_video = 25"
    by (simp_all add: example_env_def example_video_def)
  note e = a this
  from mixed_audio_of_successful_run [OF ok example_env_ok(2)] e
  have "\<exists>clips final native mixed.
      snd (make_clips example_env example_video [0, 2, 6, 10]) = Inr clips \<and>
      concatenate_videoclips clips = Inr final \<and> o_audio final = Some native \<and>
      o_duration final = sum_list (map c_duration clips) \<and>
      written (process_files example_env) = [(final\<lparr>o_audio := Some mixed\<rparr>, 25)] \<and>
      a_start mixed = 0 \<and> a_duration mixed = o_duration final \<and>
      (\<forall>t. 0 \<le> t \<and> t < o_duration final \<longrightarrow>
         make_frame mixed t = 0.5 * make_frame native t + 0.5 * (1 / 2))"
    by (elim exE conjE) (simp, blast)
  with ok example_env_ok(2) show ?thesis by blast
qed


subsection \<open>A run that fails\<close>







subsection \<open>Peak detection and cut times\<close>










lemma skip_equal_le: "i_ahead \<le> i_max \<Longrightarrow> skip_equal x i_max i i_ahead \<le> i_max"
proof (induction x i_max i i_ahead rule: skip_equal.induct)
  case (1 x i_max i i_ahead)
  show ?case
  proof (cases "i_ahead < i_max \<and> x ! i_ahead = x ! i")
    case True
    with "1.IH" have "skip_equal x i_max i (i_ahead + 1) \<le> i_max" by simp
    moreover from True have "skip_equal x i_max i i_ahead = skip_equal x i_max i (i_ahead + 1)"
      by (subst skip_equal.simps) simp
    ultimately show ?thesis by simp
  next
    case False
    then have "skip_equal x i_max i i_ahead = i_ahead"
      by (subst skip_equal.simps) auto
    with "1.prems" show ?thesis by simp
  qed
qed

lemma local_maxima_from_bounds:
  "p \<in> set (local_maxima_from x i_max i) \<Longrightarrow> i \<le> p \<and> p < i_max"
proof (induction x i_max i rule: local_maxima_from.induct)
  case (1 x i_max i)
  show ?case
  proof (cases "i < i_max")
    case False
    with "1.prems" show ?thesis by (subst (asm) local_maxima_from.simps) simp
  next
    case True
    show ?thesis
    proof (cases "x ! (i - 1) < x ! i")
      case False
      with True "1.prems" have "p \<in> set (local_maxima_from x i_max (i + 1))"
        by (subst (asm) local_maxima_from.simps) simp
      from "1.IH"(3) [OF True False this] show ?thesis by simp
    next
      case up: True
      define a where "a = skip_equal x i_max i (i + 1)"
      have a: "i + 1 \<le> a" "a \<le> i_max"
        using skip_equal_ge [of "i + 1" x i_max i] skip_equal_le [of "i + 1" i_max x i] True
        by (simp_all add: a_def)
      show ?thesis
      proof (cases "x ! a < x ! i")
        case False
        with True up "1.prems" have "p \<in> set (local_maxima_from x i_max (i + 1))"
          by (subst (asm) local_maxima_from.simps) (simp add: a_def Let_def)
        from "1.IH"(2) [OF True up a_def False this] show ?thesis by simp
      next
        case down: True
        with True up "1.prems"
        have "p = (i + (a - 1)) div 2 \<or> p \<in> set (local_maxima_from x i_max (a + 1))"
          by (subst (asm) local_maxima_from.simps) (auto simp: a_def Let_def)
        then show ?thesis
        proof
          assume "p = (i + (a - 1)) div 2"
          with a show ?thesis by arith
        next
          assume "p \<in> set (local_maxima_from x i_max (a + 1))"
          from "1.IH"(1) [OF True up a_def down this] a show ?thesis by simp
        qed
      qed
    qed
  qed
qed

lemma local_maxima_from_increasing: "sorted_wrt (<) (local_maxima_from x i_max i)"
proof (induction x i_max i rule: local_maxima_from.induct)
  case (1 x i_max i)
  show ?case
  proof (cases "i < i_max")
    case False
    then show ?thesis by (subst local_maxima_from.simps) simp
  next
    case True
    show ?thesis
    proof (cases "x ! (i - 1) < x ! i")
      case False
      with True "1.IH"(3) show ?thesis by (subst local_maxima_from.simps) simp
    next
      case up: True
      define a where "a = skip_equal x i_max i (i + 1)"
      have a: "i + 1 \<le> a" "a \<le> i_max"
        using skip_equal_ge [of "i + 1" x i_max i] skip_equal_le [of "i + 1" i_max x i] True
        by (simp_all add: a_def)
      show ?thesis
      proof (cases "x ! a < x ! i")
        case False
        with True up "1.IH"(2) [OF True up a_def False] show ?thesis
          by (subst local_maxima_from.simps) (simp add: a_def Let_def)
      next
        case down: True
        have "\<forall>p\<in>set (local_maxima_from x i_max (a + 1)). (i + (a - 1)) div 2 < p"
        proof
          fix p assume "p \<in> set (local_maxima_from x i_max (a + 1))"
          from local_maxima_from_bounds [OF this] a show "(i + (a - 1)) div 2 < p" by arith
        qed
        with "1.IH"(1) [OF True up a_def down]
        have "sorted_wrt (<) (((i + (a - 1)) div 2) # local_maxima_from x i_max (a + 1))"
          by simp
        with True up down show ?thesis
          by (subst local_maxima_from.simps) (simp add: a_def Let_def)
      qed
    qed
  qed
qed

lemma find_peaks_bounds: "p \<in> set (find_peaks e h) \<Longrightarrow> 1 \<le> p \<and> p < length e - 1"
  using local_maxima_from_bounds [of p e "length e - 1" 1]
  by (simp add: find_peaks_def local_maxima_1d_def)

lemma find_peaks_increasing: "sorted_wrt (<) (find_peaks e h)"
  unfolding find_peaks_def local_maxima_1d_def
  by (rule sorted_wrt_filter) (rule local_maxima_from_increasing)

lemma detect_peaks_bounds:
  assumes "detect_peaks e = Inr peaks"
  shows "\<forall>p\<in>set peaks. 1 \<le> p \<and> p < length e - 1" and "sorted_wrt (<) peaks"
  using assms find_peaks_bounds [of _ e] find_peaks_increasing [of e]
  by (auto simp: detect_peaks_def split: sum.splits)

lemma analysis_cut_times:
  assumes "load_audio env = Inr (n, sr)" and "bass_energy_of env = Inr e"
    and "snd (analysis env) = Inr ct"
  shows "\<exists>peaks. detect_peaks e = Inr peaks \<and>
           ct = cut_times_of (map (\<lambda>p. real (p * hop_length) / real sr) peaks)
                  (real n / real sr)"
proof -
  from assms obtain peaks pts where
    dp: "detect_peaks e = Inr peaks"
    and ti: "take_indices (frames_to_time (length e) sr) peaks = Inr pts"
    and ct: "ct = cut_times_of pts (real n / real sr)"
    by (auto simp: analysis_def snd_seq lift_def get_duration_def notify_def
        split: sum.splits option.splits if_splits)
  from ti have "pts = map (\<lambda>p. real (p * hop_length) / real sr) peaks"
    by (auto simp: take_indices_def frames_to_time_def list_all_iff split: if_splits)
  with dp ct show ?thesis by blast
qed

lemma peak_times_between:
  assumes sr: "0 < sr" and fr: "length e = 1 + n div hop_length"
    and p: "1 \<le> p \<and> p < length e - 1"
  shows "0 < real (p * hop_length) / real sr"
    and "real (p * hop_length) / real sr < real n / real sr"
proof -
  from p sr show "0 < real (p * hop_length) / real sr"
    by (simp add: hop_length_def)
  from p fr have "p + 1 \<le> n div hop_length" by simp
  then have "(p + 1) * hop_length \<le> n div hop_length * hop_length"
    by (rule mult_le_mono1)
  also have "\<dots> \<le> n" by simp
  finally have "p * hop_length < n" by (simp add: hop_length_def)
  then have "real (p * hop_length) < real n" by (simp only: of_nat_less_iff)
  moreover from sr have "0 < real sr" by simp
  ultimately show "real (p * hop_length) / real sr < real n / real sr"
    by (rule divide_strict_right_mono)
qed

lemma peak_times_increasing:
  assumes "0 < sr" and "sorted_wrt (<) peaks"
  shows "sorted_wrt (<) (map (\<lambda>p. real (p * hop_length) / real sr) peaks)"
proof -
  have "sorted_wrt (\<lambda>p q. real (p * hop_length) / real sr < real (q * hop_length) / real sr) peaks"
    using assms(2)
  proof (rule sorted_wrt_mono_rel [rotated])
    fix p q :: nat
    assume "p < q"
    then have "p * hop_length < q * hop_length" by (simp add: hop_length_def)
    then have "real (p * hop_length) < real (q * hop_length)" by (simp only: of_nat_less_iff)
    moreover from assms(1) have "0 < real sr" by simp
    ultimately show "real (p * hop_length) / real sr < real (q * hop_length) / real sr"
      by (rule divide_strict_right_mono)
  qed
  then show ?thesis by (simp add: sorted_wrt_map)
qed


text \<open>
  Claim C2, as stated, fails: line 48 sorts the cut times and removes nothing. For a song
  with no sample the duration is 0, the spectrogram has one frame, no peak is found, and the
  cut times are 0 and 0, the same timestamp twice.
\<close>

theorem zero_length_song_duplicate_counterexample:
  "load_audio zero_length_env = Inr (0, 22050) \<and>
   bass_energy_of zero_length_env = Inr [0] \<and>
   length [0 :: real] = 1 + 0 div hop_length \<and>
   snd (analysis zero_length_env) = Inr [0, 0] \<and>
   \<not> distinct [0, 0 :: real]"
  by (simp add: analysis_def zero_length_env_def example_env_def get_duration_def notify_def
      detect_peaks_def np_max_def find_peaks_def local_maxima_1d_def local_maxima_from.simps
      take_indices_def frames_to_time_def hop_length_def cut_times_of_def lift_def)

text \<open>
  Claim C2, amended. Let the song have \<open>n\<close> samples at a positive rate, and let the curve
  have the \<open>1 + n div 512\<close> frames of the spectrogram. Then the cut times of a run whose
  analysis completes are 0, then the times of the detected peaks in increasing order, then
  the song's duration; every peak time lies strictly between 0 and the duration; the
  sequence is sorted, starts at 0 and ends at the duration. It is strictly ordered, without
  duplicates, exactly when the song is not empty; for an empty song it is 0 twice.
\<close>

theorem cut_times_sorted_from_zero:
  assumes "load_audio env = Inr (n, sr)" and "0 < sr" and "bass_energy_of env = Inr e"
    and "length e = 1 + n div hop_length" and "snd (analysis env) = Inr cut_times"
  shows "\<exists>peaks. detect_peaks e = Inr peaks \<and>
           cut_times = [0] @ map (\<lambda>p. real (p * hop_length) / real sr) peaks @
                       [real n / real sr] \<and>
           (\<forall>p\<in>set peaks. 0 < real (p * hop_length) / real sr \<and>
                            real (p * hop_length) / real sr < real n / real sr) \<and>
           sorted_wrt (<) (map (\<lambda>p. real (p * hop_length) / real sr) peaks) \<and>
           sorted cut_times \<and> hd cut_times = 0 \<and> last cut_times = real n / real sr \<and>
           (0 < n \<longrightarrow> sorted_wrt (<) cut_times \<and> distinct cut_times) \<and>
           (n = 0 \<longrightarrow> cut_times = [0, 0])"
proof -
  let ?f = "\<lambda>p. real (p * hop_length) / real sr"
  let ?D = "real n / real sr"
  from analysis_cut_times [OF assms(1,3,5)] obtain peaks where
    dp: "detect_peaks e = Inr peaks" and ct: "cut_times = cut_times_of (map ?f peaks) ?D"
    by blast
  note b = detect_peaks_bounds [OF dp]
  have btw: "\<forall>p\<in>set peaks. 0 < ?f p \<and> ?f p < ?D"
  proof
    fix p assume "p \<in> set peaks"
    with b(1) have "1 \<le> p \<and> p < length e - 1" by blast
    from peak_times_between [OF assms(2,4) this] show "0 < ?f p \<and> ?f p < ?D" by blast
  qed
  have inc: "sorted_wrt (<) (map ?f peaks)"
    using assms(2) b(2) by (rule peak_times_increasing)
  show ?thesis
  proof (cases "n = 0")
    case True
    with assms(4) have "length e - 1 = 0" by simp
    with b(1) have "peaks = []" by (cases peaks) auto
    with True ct have "cut_times = [0, 0]" by (simp add: cut_times_of_def)
    with dp \<open>peaks = []\<close> True show ?thesis by simp
  next
    case False
    with assms(2) have D: "0 < ?D" by simp
    let ?L = "[0] @ map ?f peaks @ [?D]"
    from btw inc D have strict: "sorted_wrt (<) ?L"
      by (auto simp: sorted_wrt_append)
    then have srt: "sorted ?L" by (rule strict_sorted_imp_sorted)
    then have "sort ?L = ?L" by (rule sorted_sort_id)
    with ct have c: "cut_times = ?L" by (simp add: cut_times_of_def)
    from strict have dist: "distinct ?L" by (simp only: strict_sorted_iff)
    have hl: "hd ?L = 0" "last ?L = ?D" by simp_all
    from dp c btw inc srt hl strict dist False show ?thesis
      by (intro exI [of _ peaks]) (simp only: simp_thms)
  qed
qed

theorem cut_times_sorted_from_zero_witness:
  "load_audio example_env = Inr (2560, 256) \<and> (0::nat) < 256 \<and>
   bass_energy_of example_env = Inr [0, 1, 0, 1, 0, 0] \<and>
   length [0, 1, 0, 1, 0, 0 :: real] = 1 + 2560 div hop_length \<and>
   snd (analysis example_env) = Inr [0, 2, 6, 10] \<and>
   sorted [0, 2, 6, 10 :: real] \<and> hd [0, 2, 6, 10 :: real] = 0 \<and>
   last [0, 2, 6, 10 :: real] = real 2560 / real 256 \<and>
   sorted_wrt (<) [0, 2, 6, 10 :: real] \<and> distinct [0, 2, 6, 10 :: real]"
proof -
  have h: "load_audio example_env = Inr (2560, 256)" "(0::nat) < 256"
    "bass_energy_of example_env = Inr [0, 1, 0, 1, 0, 0]"
    "length [0, 1, 0, 1, 0, 0 :: real] = 1 + 2560 div hop_length"
    by (simp_all add: example_env_def hop_length_def)
  have a: "snd (analysis example_env) = Inr [0, 2, 6, 10]"
    by (simp add: example_analysis)
  have n: "0 < (2560::nat)" by simp
  from cut_times_sorted_from_zero [OF h a] n
  have "sorted [0, 2, 6, 10 :: real] \<and> hd [0, 2, 6, 10 :: real] = 0 \<and>
   last [0, 2, 6, 10 :: real] = real 2560 / real 256 \<and>
   sorted_wrt (<) [0, 2, 6, 10 :: real] \<and> distinct [0, 2, 6, 10 :: real]"
    by blast
  with h a show ?thesis by blast
qed

end
